(* ===== verification/Prelude.thy ===== *)
theory Prelude
  imports Complex_Main "HOL-Library.Word"
begin

text \<open>
  Shared vocabulary of the development of \<^verbatim>\<open>src/js/generator.js\<close>: the JavaScript
  built-ins the program relies on, written as HOL functions, and the generic lemmas on
  them that the component theories use.
  \<^item> \<open>some_st\<close> is \<^verbatim>\<open>Array.prototype.some\<close> with a callback that also threads a
    state: the collision detector's visitor writes its verdict into the captured
    variable \<^verbatim>\<open>foundCollision\<close> (lines 169--176), so the callback is a function from
    the captured state and the element to the returned truth value and the new state.
  \<^item> \<open>js_round\<close> is \<^verbatim>\<open>Math.round\<close> on finite numbers.
  \<^item> The collection \<open>model_defs\<close> gathers the definitions a proof about the growth
    model unfolds together.
\<close>

named_theorems model_defs "definitions of the growth model unfolded together"

type_synonym ('s, 'e) visitor = "'s \<Rightarrow> 'e \<Rightarrow> bool \<times> 's"

type_synonym ('s, 'e) traversal = "('s, 'e) visitor \<Rightarrow> 's \<Rightarrow> bool \<times> 's"

fun some_st :: "('s, 'e) visitor \<Rightarrow> 's \<Rightarrow> 'e list \<Rightarrow> bool \<times> 's" where
  "some_st f s [] = (False, s)"
| "some_st f s (x # xs) =
     (case f s x of (True, s') \<Rightarrow> (True, s') | (False, s') \<Rightarrow> some_st f s' xs)"

definition js_round :: "real \<Rightarrow> int" where
  "js_round x = \<lfloor>x + 1 / 2\<rfloor>"

subsection \<open>Lemmas on \<open>some_st\<close>\<close>

lemma some_st_append:
  "some_st f s (xs @ ys) =
     (case some_st f s xs of (True, s') \<Rightarrow> (True, s') | (False, s') \<Rightarrow> some_st f s' ys)"
  by (induction xs arbitrary: s) (auto split: prod.split bool.split)

text \<open>A visitor that never changes the state makes \<open>some_st\<close> the existential over the list.\<close>

lemma some_st_stateless:
  "some_st (\<lambda>s x. (P x, s)) s xs = ((\<exists>x\<in>set xs. P x), s)"
  by (induction xs) (auto split: bool.split)

text \<open>
  Nested traversal (\<^verbatim>\<open>seeds.some(seed => seed.lines.some(fn))\<close>) is traversal of the
  concatenation: the outer callback returns the inner result and passes the state on.
\<close>

lemma some_st_nested:
  "some_st (\<lambda>s ys. some_st f s (g ys)) s xss = some_st f s (concat (map g xss))"
proof (induction xss arbitrary: s)
  case Nil
  then show ?case by simp
next
  case (Cons ys xss)
  then show ?case
    by (simp add: some_st_append split: prod.split bool.split)
qed

lemma some_st_map:
  "some_st f s (map g xs) = some_st (\<lambda>s x. f s (g x)) s xs"
  by (induction xs arbitrary: s) (auto split: prod.split bool.split)

subsection \<open>Lists updated in place\<close>

lemma length_filter_update_plus:
  "j < length xs \<Longrightarrow>
   length (filter P (xs[j := x])) + (if P (xs ! j) then 1 else 0) =
   length (filter P xs) + (if P x then 1 else 0)"
proof (induction xs arbitrary: j)
  case Nil
  then show ?case by simp
next
  case (Cons y ys)
  then show ?case by (cases j) auto
qed

lemma concat_map_filter_nil:
  "(\<And>j. j \<in> set xs \<Longrightarrow> \<not> P j \<Longrightarrow> f j = []) \<Longrightarrow>
   concat (map f (filter P xs)) = concat (map f xs)"
  by (induction xs) auto

lemma sum_list_map_update_plus:
  "i < length xs \<Longrightarrow>
   sum_list (map f (xs[i := x])) + f (xs ! i) = sum_list (map f xs) + (f x :: nat)"
proof (induction xs arbitrary: i)
  case Nil
  then show ?case by simp
next
  case (Cons y ys)
  then show ?case by (cases i) auto
qed

end
