(* ===== verification/Prng.thy ===== *)
theory Prng
  imports Prelude
begin

text \<open>
  The pseudo-random generator \<^verbatim>\<open>randomFromSeed\<close> (\<^verbatim>\<open>src/js/generator.js\<close>, lines
  97--111): a closure over a mutable number \<^verbatim>\<open>seed\<close>, the mulberry32 mixing function,
  and the ranged draw \<^verbatim>\<open>function(a=1, b=0)\<close> that every other component calls as
  \<^verbatim>\<open>rnd\<close>. The closure's state is passed explicitly: each draw takes the current
  \<^verbatim>\<open>seed\<close> and returns the value with the new \<^verbatim>\<open>seed\<close>.

  JavaScript keeps \<^verbatim>\<open>seed\<close> as a double and only \<^verbatim>\<open>seed += 0x6D2B79F5\<close> writes
  it; the bit operators and \<^verbatim>\<open>Math.imul\<close> read their operands modulo \<open>2\<^sup>3\<^sup>2\<close>
  (ToInt32/ToUint32). The state is therefore an unbounded \<open>int\<close> (exact while it stays
  below \<open>2\<^sup>5\<^sup>3\<close>, see \<open>seed_exact_horizon\<close>), and the mixing is on \<open>32 word\<close>:
  \<^verbatim>\<open>t ^ t >>> k\<close> is \<open>t XOR drop_bit k t\<close>, \<^verbatim>\<open>Math.imul\<close> is word multiplication,
  \<^verbatim>\<open>t + imul(..)\<close> followed by \<^verbatim>\<open>^\<close> is word addition, and
  \<^verbatim>\<open>(..) >>> 0\<close> is \<open>unat\<close>. Numbers are modelled as \<open>real\<close>.
\<close>

unbundle bit_operations_syntax

definition mulberry32_incr :: int where
  "mulberry32_incr = 0x6D2B79F5"

definition mulberry32_mix :: "32 word \<Rightarrow> 32 word" where
  "mulberry32_mix t =
     (let t1 = (t XOR drop_bit 15 t) * (t OR 1);
          t2 = t1 XOR (t1 + (t1 XOR drop_bit 7 t1) * (t1 OR 61))
      in t2 XOR drop_bit 14 t2)"

definition mulberry32 :: "int \<Rightarrow> real \<times> int" where
  "mulberry32 seed =
     (let seed' = seed + mulberry32_incr
      in (real (unat (mulberry32_mix (word_of_int seed'))) / 4294967296, seed'))"

text \<open>
  The ranged draw. \<^verbatim>\<open>min = b && a\<close> is \<open>b\<close> when \<open>b\<close> is falsy (zero) and \<open>a\<close>
  otherwise; \<^verbatim>\<open>max = b || a\<close> is \<open>b\<close> when \<open>b\<close> is truthy and \<open>a\<close> otherwise.
  The locals are called \<open>lo\<close> and \<open>hi\<close> here because \<open>min\<close> and \<open>max\<close> are HOL
  constants. The call \<^verbatim>\<open>rnd()\<close> is \<open>rnd 1 0\<close> and \<^verbatim>\<open>rnd(a)\<close> is \<open>rnd a 0\<close>.
\<close>

definition rnd :: "real \<Rightarrow> real \<Rightarrow> int \<Rightarrow> real \<times> int" where
  "rnd a b seed =
     (let lo = (if b = 0 then b else a);
          hi = (if b = 0 then a else b);
          (u, seed') = mulberry32 seed
      in (u * (hi - lo) + lo, seed'))"

text \<open>\<open>n\<close> consecutive draws of \<^verbatim>\<open>rnd()\<close>: the values and the final state.\<close>

fun draws :: "nat \<Rightarrow> int \<Rightarrow> real list \<times> int" where
  "draws 0 s = ([], s)"
| "draws (Suc n) s =
     (let (u, s') = mulberry32 s; (us, s'') = draws n s' in (u # us, s''))"

subsection \<open>Basic facts\<close>

lemma mulberry32_state [simp]:
  "snd (mulberry32 s) = s + mulberry32_incr"
  by (simp add: mulberry32_def Let_def)

lemma mulberry32_value:
  "fst (mulberry32 s) = real (unat (mulberry32_mix (word_of_int (s + mulberry32_incr)))) / 4294967296"
  by (simp add: mulberry32_def Let_def)

lemma unat_word32_less: "real (unat (w :: 32 word)) < 4294967296"
proof -
  have "unat w < 2 ^ LENGTH(32)" by (rule unsigned_less)
  then have "unat w < 4294967296" by simp
  then show ?thesis by linarith
qed

lemma mulberry32_unit_bounds:
  "0 \<le> fst (mulberry32 s) \<and> fst (mulberry32 s) < 1"
proof -
  obtain w :: "32 word" where w: "fst (mulberry32 s) = real (unat w) / 4294967296"
    using mulberry32_value by blast
  have scale: "0 \<le> r \<Longrightarrow> r < 4294967296 \<Longrightarrow> 0 \<le> r / 4294967296 \<and> r / 4294967296 < 1"
    for r :: real by simp
  show ?thesis
    unfolding w by (rule scale [OF of_nat_0_le_iff unat_word32_less])
qed

lemma mulberry32_unit:
  "0 \<le> fst (mulberry32 s)" "fst (mulberry32 s) < 1" "\<not> fst (mulberry32 s) < 0"
  using mulberry32_unit_bounds [of s] by auto

lemma rnd_eq:
  "rnd a b s =
     (if b = 0 then (fst (mulberry32 s) * a, s + mulberry32_incr)
      else (fst (mulberry32 s) * (b - a) + a, s + mulberry32_incr))"
  by (simp add: rnd_def mulberry32_def Let_def)

lemma rnd_state [simp]: "snd (rnd a b s) = s + mulberry32_incr"
  by (simp add: rnd_eq)

lemma mulberry32_mix_zero: "mulberry32_mix 0 = 0"
  by (simp add: mulberry32_mix_def Let_def)

subsection \<open>The generator's state\<close>

lemma draws_state: "snd (draws n s) = s + int n * mulberry32_incr"
  by (induction n arbitrary: s) (simp_all add: split_beta algebra_simps)

text \<open>
  C34. How long the double-valued state stays exact: after \<open>n\<close> draws the state is
  \<open>seed + n * 0x6D2B79F5\<close>. From a seed of \<^verbatim>\<open>startNew\<close> (\<^verbatim>\<open>Date.now() & 0xfffff\<close>,
  below \<open>2\<^sup>2\<^sup>0\<close>) it stays below \<open>2\<^sup>5\<^sup>3\<close>, where a JavaScript number is exact,
  for the first 4917758 draws; from any non-negative seed it is at least \<open>2\<^sup>5\<^sup>3\<close> from
  draw 4917759 on, where \<^verbatim>\<open>seed += 0x6D2B79F5\<close> starts to round.
\<close>

theorem seed_exact_horizon:
  "(0 \<le> s \<and> s < 2 ^ 20 \<and> n \<le> 4917758 \<longrightarrow> 0 \<le> snd (draws n s) \<and> snd (draws n s) < 2 ^ 53) \<and>
   (0 \<le> s \<and> 4917759 \<le> n \<longrightarrow> 2 ^ 53 \<le> snd (draws n s))"
proof -
  have h1: "0 \<le> snd (draws n s) \<and> snd (draws n s) < 2 ^ 53"
    if a: "0 \<le> s" "s < 2 ^ 20" "n \<le> 4917758"
  proof -
    have "int n * mulberry32_incr \<le> 4917758 * mulberry32_incr"
      using a by (simp add: mulberry32_incr_def)
    with a show ?thesis by (simp add: draws_state mulberry32_incr_def)
  qed
  have h2: "2 ^ 53 \<le> snd (draws n s)" if a: "0 \<le> s" "4917759 \<le> n"
  proof -
    have "4917759 * mulberry32_incr \<le> int n * mulberry32_incr"
      using a by (simp add: mulberry32_incr_def)
    with a show ?thesis by (simp add: draws_state mulberry32_incr_def)
  qed
  show ?thesis using h1 h2 by blast
qed

text \<open>
  C30. The range of a ranged draw: \<^verbatim>\<open>rnd(a)\<close> with \<open>a > 0\<close> lies in \<open>[0, a)\<close> and
  \<^verbatim>\<open>rnd(a, b)\<close> with \<open>a < b\<close> in \<open>[a, b)\<close>, as specified; but with \<open>b < a\<close> (and
  \<open>b \<noteq> 0\<close>) it lies in \<open>(b, a]\<close>, not in \<open>[b, a)\<close>.
\<close>

theorem rnd_range:
  "(b = 0 \<and> 0 < a \<longrightarrow> 0 \<le> fst (rnd a b s) \<and> fst (rnd a b s) < a) \<and>
   (b \<noteq> 0 \<and> a < b \<longrightarrow> a \<le> fst (rnd a b s) \<and> fst (rnd a b s) < b) \<and>
   (b \<noteq> 0 \<and> b < a \<longrightarrow> b < fst (rnd a b s) \<and> fst (rnd a b s) \<le> a)"
proof -
  let ?u = "fst (mulberry32 s)"
  have u: "0 \<le> ?u" "?u < 1" by (rule mulberry32_unit)+
  have lo: "0 < d \<Longrightarrow> 0 \<le> ?u * d \<and> ?u * d < d" for d :: real
    using u by (simp add: mult_strict_right_mono)
  show ?thesis
    using lo [of a] lo [of "b - a"] lo [of "a - b"] by (auto simp: rnd_eq algebra_simps)
qed

end
