(* ===== verification/Config.thy ===== *)
theory Config
  imports Prng
begin

text \<open>
  The run's configuration \<^verbatim>\<open>buildRandomConfig(rnd)\<close> (\<^verbatim>\<open>src/js/generator.js\<close>,
  lines 181--198): twelve draws from the generator, in the order JavaScript evaluates
  the object literal (\<^verbatim>\<open>useGradients\<close> first, then the properties top to bottom;
  \<^verbatim>\<open>rectAlpha\<close> makes exactly one draw on either branch). Only \<open>seedCount\<close>,
  \<open>pBifurcation\<close> and \<open>expiryThreshold\<close> drive the growth; the others are visual, but
  their draws move the generator and so decide every later draw.
\<close>

record config =
  seedCount :: int
  pBifurcation :: real
  maxRectWidth :: real
  rectBaseHue :: real
  rectSaturation :: real
  rectHueVariation :: real
  rectAlpha :: real
  rectLightness :: real
  expiryThreshold :: real
  lineDarkness :: real
  pencilHorizontal :: bool
  useGradients :: bool

definition buildRandomConfig :: "int \<Rightarrow> config \<times> int" where
  "buildRandomConfig s0 =
     (let (g, s1) = rnd 1 0 s0;
          useGradients = (g > 0.3);
          (sc, s2) = rnd 1 10 s1;
          (pb, s3) = rnd 0.02 0.05 s2;
          (mrw, s4) = rnd 0 100 s3;
          (hue, s5) = rnd 360 0 s4;
          (sat, s6) = rnd 20 100 s5;
          (hv, s7) = rnd 100 0 s6;
          (alpha, s8) = (if useGradients then rnd 0.4 0.8 s7 else rnd 0.1 0.4 s7);
          (li, s9) = rnd 20 70 s8;
          (et, s10) = rnd 0.001 0 s9;
          (ld, s11) = rnd 1 0 s10;
          (ph, s12) = rnd 1 0 s11
      in (\<lparr>seedCount = js_round sc, pBifurcation = pb, maxRectWidth = mrw,
           rectBaseHue = hue, rectSaturation = sat, rectHueVariation = hv,
           rectAlpha = alpha, rectLightness = li, expiryThreshold = et,
           lineDarkness = ld, pencilHorizontal = (ph > 0.5),
           useGradients = useGradients\<rparr>, s12))"

subsection \<open>Properties of the configuration\<close>

lemma js_round_bounds:
  "real_of_int m \<le> x \<Longrightarrow> x < real_of_int n \<Longrightarrow> m \<le> js_round x \<and> js_round x \<le> n"
  unfolding js_round_def by linarith

lemma buildRandomConfig_fields:
  "seedCount (fst (buildRandomConfig s)) = js_round (fst (mulberry32 (s + mulberry32_incr)) * 9 + 1) \<and>
   pBifurcation (fst (buildRandomConfig s)) = fst (mulberry32 (s + 2 * mulberry32_incr)) * 0.03 + 0.02 \<and>
   expiryThreshold (fst (buildRandomConfig s)) = fst (mulberry32 (s + 9 * mulberry32_incr)) * 0.001 \<and>
   snd (buildRandomConfig s) = s + 12 * mulberry32_incr"
  by (simp add: buildRandomConfig_def rnd_eq split_beta Let_def algebra_simps)

lemma buildRandomConfig_seedCount:
  "1 \<le> seedCount (fst (buildRandomConfig s)) \<and> seedCount (fst (buildRandomConfig s)) \<le> 10"
proof -
  let ?u = "fst (mulberry32 (s + mulberry32_incr))"
  have "0 \<le> ?u" "?u < 1" by (rule mulberry32_unit)+
  then have "real_of_int 1 \<le> ?u * 9 + 1" "?u * 9 + 1 < real_of_int 10" by simp_all
  from js_round_bounds [OF this] show ?thesis using buildRandomConfig_fields [of s] by simp
qed

lemma buildRandomConfig_visual:
  "0 \<le> rectBaseHue (fst (buildRandomConfig s)) \<and> rectBaseHue (fst (buildRandomConfig s)) < 360 \<and>
   0 \<le> rectHueVariation (fst (buildRandomConfig s)) \<and> rectHueVariation (fst (buildRandomConfig s)) < 100 \<and>
   0 \<le> maxRectWidth (fst (buildRandomConfig s)) \<and> maxRectWidth (fst (buildRandomConfig s)) < 100 \<and>
   0 \<le> lineDarkness (fst (buildRandomConfig s)) \<and> lineDarkness (fst (buildRandomConfig s)) < 1"
proof -
  have u: "0 \<le> fst (mulberry32 t)" "fst (mulberry32 t) < 1" for t by (rule mulberry32_unit)+
  have "rectBaseHue (fst (buildRandomConfig s)) = fst (mulberry32 (s + 4 * mulberry32_incr)) * 360 \<and>
    rectHueVariation (fst (buildRandomConfig s)) = fst (mulberry32 (s + 6 * mulberry32_incr)) * 100 \<and>
    maxRectWidth (fst (buildRandomConfig s)) = fst (mulberry32 (s + 3 * mulberry32_incr)) * 100 \<and>
    lineDarkness (fst (buildRandomConfig s)) = fst (mulberry32 (s + 10 * mulberry32_incr))"
    by (simp add: buildRandomConfig_def rnd_eq split_beta Let_def algebra_simps)
  then show ?thesis
    using u [of "s + 4 * mulberry32_incr"] u [of "s + 6 * mulberry32_incr"]
      u [of "s + 3 * mulberry32_incr"] u [of "s + 10 * mulberry32_incr"]
    by simp
qed

text \<open>
  C31. The growth parameters of a random configuration are in range: between 1 and 10
  seeds (so \<^verbatim>\<open>Array(seedCount)\<close> never throws and the run is never empty), a
  bifurcation probability in \<open>[0.02, 0.05)\<close> and an expiry threshold in \<open>[0, 0.001)\<close>;
  and building it makes exactly twelve draws, whichever branch \<^verbatim>\<open>rectAlpha\<close> takes.
\<close>

theorem buildRandomConfig_ranges:
  "1 \<le> seedCount (fst (buildRandomConfig s)) \<and> seedCount (fst (buildRandomConfig s)) \<le> 10 \<and>
   0.02 \<le> pBifurcation (fst (buildRandomConfig s)) \<and> pBifurcation (fst (buildRandomConfig s)) < 0.05 \<and>
   0 \<le> expiryThreshold (fst (buildRandomConfig s)) \<and> expiryThreshold (fst (buildRandomConfig s)) < 0.001 \<and>
   snd (buildRandomConfig s) = s + 12 * mulberry32_incr"
proof -
  have u: "0 \<le> fst (mulberry32 t)" "fst (mulberry32 t) < 1" for t by (rule mulberry32_unit)+
  show ?thesis
    using buildRandomConfig_fields [of s] buildRandomConfig_seedCount [of s]
      u [of "s + 2 * mulberry32_incr"] u [of "s + 9 * mulberry32_incr"]
    by simp
qed

end
