(* ===== verification/Geometry.thy ===== *)
theory Geometry
  imports Prelude
begin

text \<open>
  The collision detector \<^verbatim>\<open>buildCollisionDetector(canvas)\<close>
  (\<^verbatim>\<open>src/js/generator.js\<close>, lines 113--179). Points and segments are JavaScript
  objects with fields \<^verbatim>\<open>x\<close>, \<^verbatim>\<open>y\<close> and \<^verbatim>\<open>p0\<close>, \<^verbatim>\<open>p1\<close>; they are records here,
  and a segment is an extensible record so that the growth model's lines (which extend it)
  are segments too, as JavaScript's duck typing has it. The coordinates are of any
  linearly ordered ring, so the detector is executable on integers and applies to the
  growth model's real coordinates.

  The detector reaches the forest only through the callback
  \<^verbatim>\<open>forEachLineUntilTrue\<close> it is given, and its visitor writes the verdict into the
  captured variable \<^verbatim>\<open>foundCollision\<close>. The traversal is therefore a parameter of type
  \<open>(bool, _) traversal\<close> (see \<open>Prelude\<close>): it receives the stateful visitor and the initial
  value of \<^verbatim>\<open>foundCollision\<close>. The detector sees each line of the forest as a
  \<open>cline\<close>: its segment, its identity \<open>cid\<close> (JavaScript's \<^verbatim>\<open>===\<close> on objects) and
  the identity of its parent \<open>cparent\<close>.
\<close>

record 'a point =
  px :: 'a
  py :: 'a

record 'a seg =
  p0 :: "'a point"
  p1 :: "'a point"

record ('a, 'i) cline = "'a seg" +
  cid :: 'i
  cparent :: "'i option"

text \<open>The constants \<^verbatim>\<open>COLINEAR = 0, CLOCKWISE = 1, ANTICLOCKWISE = 2\<close> (line 114).\<close>

datatype orient = COLINEAR | CLOCKWISE | ANTICLOCKWISE

definition lineOffscreen :: "('a \<Rightarrow> 'a \<Rightarrow> bool) \<Rightarrow> ('a, 'z) seg_scheme \<Rightarrow> bool" where
  "lineOffscreen isVisible line = (\<not> isVisible (px (p1 line)) (py (p1 line)))"

definition orientation :: "'a::linordered_idom point \<Rightarrow> 'a point \<Rightarrow> 'a point \<Rightarrow> orient" where
  "orientation p q r =
     (let v = (py q - py p) * (px r - px q) - (px q - px p) * (py r - py q)
      in if v > 0 then CLOCKWISE else if v < 0 then ANTICLOCKWISE else COLINEAR)"

definition onSegment :: "'a::linordered_idom point \<Rightarrow> 'a point \<Rightarrow> 'a point \<Rightarrow> bool" where
  "onSegment p q r \<longleftrightarrow>
     px q \<le> max (px p) (px r) \<and> px q \<ge> min (px p) (px r) \<and>
     py q \<le> max (py p) (py r) \<and> py q \<ge> min (py p) (py r)"

definition linesIntersect ::
  "('a::linordered_idom, 'z) seg_scheme \<Rightarrow> ('a, 'w) seg_scheme \<Rightarrow> bool" where
  "linesIntersect l1 l2 =
     (let o1 = orientation (p0 l1) (p1 l1) (p0 l2);
          o2 = orientation (p0 l1) (p1 l1) (p1 l2);
          o3 = orientation (p0 l2) (p1 l2) (p0 l1);
          o4 = orientation (p0 l2) (p1 l2) (p1 l1)
      in if o1 \<noteq> o2 \<and> o3 \<noteq> o4 then True
         else if o1 = COLINEAR \<and> onSegment (p0 l1) (p0 l2) (p1 l1) then True
         else if o2 = COLINEAR \<and> onSegment (p0 l1) (p1 l2) (p1 l1) then True
         else if o3 = COLINEAR \<and> onSegment (p0 l2) (p0 l1) (p1 l2) then True
         else if o4 = COLINEAR \<and> onSegment (p0 l2) (p1 l1) (p1 l2) then True
         else False)"

text \<open>The exclusion test of line 171: the line itself, its parent, its children.\<close>

definition collision_exempt :: "('a, 'i) cline \<Rightarrow> ('a, 'i) cline \<Rightarrow> bool" where
  "collision_exempt line1 line2 \<longleftrightarrow>
     cid line1 = cid line2 \<or> cparent line1 = Some (cid line2) \<or> cparent line2 = Some (cid line1)"

text \<open>
  The visitor of lines 170--175: an exempt line returns \<^verbatim>\<open>undefined\<close> (falsy) and leaves
  \<^verbatim>\<open>foundCollision\<close> alone; any other line assigns the intersection test to it and
  returns it.
\<close>

definition collision_visitor ::
  "('a::linordered_idom, 'i) cline \<Rightarrow> (bool, ('a, 'i) cline) visitor" where
  "collision_visitor line1 foundCollision line2 =
     (if collision_exempt line1 line2 then (False, foundCollision)
      else let r = linesIntersect line1 line2 in (r, r))"

definition checkForCollisions ::
  "('a \<Rightarrow> 'a \<Rightarrow> bool) \<Rightarrow> ('a::linordered_idom, 'i) cline \<Rightarrow>
   (bool, ('a, 'i) cline) traversal \<Rightarrow> bool" where
  "checkForCollisions isVisible line1 forEachLineUntilTrue =
     (if lineOffscreen isVisible line1 then True
      else snd (forEachLineUntilTrue (collision_visitor line1) False))"

subsection \<open>The scan of the forest\<close>

text \<open>
  What the stateful scan computes: it stops at the first non-exempt line that
  intersects, and otherwise leaves in \<^verbatim>\<open>foundCollision\<close> the verdict of the last
  non-exempt line it tested (or the initial value if there was none).
\<close>

lemma collision_scan:
  "some_st (collision_visitor line1) f xs =
     ((\<exists>x\<in>set xs. \<not> collision_exempt line1 x \<and> linesIntersect line1 x),
      if \<exists>x\<in>set xs. \<not> collision_exempt line1 x
      then \<exists>x\<in>set xs. \<not> collision_exempt line1 x \<and> linesIntersect line1 x else f)"
proof (induction xs arbitrary: f)
  case Nil
  then show ?case by simp
next
  case (Cons x xs)
  show ?case
  proof (cases "collision_exempt line1 x")
    case True
    then have "collision_visitor line1 f x = (False, f)"
      by (simp add: collision_visitor_def)
    with True Cons.IH show ?thesis by simp
  next
    case False
    then have "collision_visitor line1 f x = (linesIntersect line1 x, linesIntersect line1 x)"
      by (simp add: collision_visitor_def Let_def)
    with False Cons.IH show ?thesis
      by (cases "linesIntersect line1 x") auto
  qed
qed

lemma collision_scan_found:
  "snd (some_st (collision_visitor line1) False xs) \<longleftrightarrow>
     (\<exists>x\<in>set xs. \<not> collision_exempt line1 x \<and> linesIntersect line1 x)"
  by (simp add: collision_scan)

subsection \<open>Properties of the detector\<close>

lemma checkForCollisions_list:
  "checkForCollisions isVisible line1 (\<lambda>v s. some_st v s xs) \<longleftrightarrow>
     lineOffscreen isVisible line1 \<or>
     (\<exists>line2\<in>set xs. \<not> collision_exempt line1 line2 \<and> linesIntersect line1 line2)"
  by (simp add: checkForCollisions_def collision_scan_found)

text \<open>
  The intersection test does not depend on the order of its arguments, so whether
  two lines block each other does not depend on which one is growing.
\<close>

lemma linesIntersect_sym: "linesIntersect l1 l2 = linesIntersect l2 l1"
  by (auto simp: linesIntersect_def Let_def)

end
