(* ===== verification/Line.thy ===== *)
theory Line
  imports Config Geometry
begin

text \<open>
  One line of the forest: the object literal built in \<^verbatim>\<open>buildLine\<close>
  (\<^verbatim>\<open>src/js/generator.js\<close>, lines 10--34) with its two methods \<^verbatim>\<open>grow()\<close> and
  \<^verbatim>\<open>clip()\<close>. The line extends the segment record of \<open>Geometry\<close> (fields \<open>p0\<close>,
  \<open>p1\<close>), so the intersection test applies to it directly. The field \<^verbatim>\<open>rnd\<close> (the
  opaque tag drawn at creation) is called \<open>rnd_tag\<close>, since \<open>rnd\<close> is the generator.
  The field \<^verbatim>\<open>parent\<close> holds a reference to the parent object in JavaScript; here
  it is the parent's index in the same seed's line list, which is where every parent
  lives (see \<open>Model\<close>): identity comparison is index comparison. The methods read the
  closure variables \<^verbatim>\<open>angle\<close> (equal to the field, never reassigned),
  \<^verbatim>\<open>growthRate\<close>, \<^verbatim>\<open>config\<close> and \<^verbatim>\<open>rnd\<close>; the generator state is passed in and
  returned.
\<close>

record line = "real seg" +
  angle :: real
  generation :: nat
  parent :: "nat option"
  active :: bool
  split :: bool
  expired :: bool
  steps :: nat
  rnd_tag :: real

definition growthRate :: real where
  "growthRate = 1"

definition line_grow :: "config \<Rightarrow> line \<Rightarrow> int \<Rightarrow> line \<times> int" where
  "line_grow config line seed =
     (let line1 = line\<lparr>p1 := \<lparr>px = px (p1 line) + sin (angle line) * growthRate,
                              py = py (p1 line) + cos (angle line) * growthRate\<rparr>,
                       steps := steps line + 1\<rparr>;
          (u1, seed1) = rnd 1 0 seed;
          line2 = line1\<lparr>split := (u1 < pBifurcation config)\<rparr>;
          (u2, seed2) = rnd 1 0 seed1
      in (if u2 < real (generation line2) * expiryThreshold config
          then line2\<lparr>expired := True\<rparr> else line2, seed2))"

definition line_clip :: "line \<Rightarrow> line" where
  "line_clip line =
     line\<lparr>p1 := \<lparr>px = px (p1 line) - sin (angle line) * growthRate,
                 py = py (p1 line) - cos (angle line) * growthRate\<rparr>\<rparr>"

subsection \<open>Properties of a line\<close>

lemma line_grow_eq:
  "line_grow config l s =
     (l\<lparr>p1 := \<lparr>px = px (p1 l) + sin (angle l) * growthRate, py = py (p1 l) + cos (angle l) * growthRate\<rparr>,
        steps := steps l + 1, split := fst (mulberry32 s) < pBifurcation config,
        expired := (expired l \<or> fst (mulberry32 (s + mulberry32_incr)) < real (generation l) * expiryThreshold config)\<rparr>,
      s + 2 * mulberry32_incr)"
  by (simp add: line_grow_def rnd_eq split_beta Let_def)

text \<open>
  C33. \<^verbatim>\<open>clip()\<close> undoes the tip movement of the \<^verbatim>\<open>grow()\<close> before it: the line
  after a grow and a clip is the grown line with its old tip back (the step count and
  flags of the grow stay).
\<close>

theorem line_clip_undoes_grow:
  "line_clip (fst (line_grow config l s)) = (fst (line_grow config l s))\<lparr>p1 := p1 l\<rparr>"
  by (simp add: line_grow_eq line_clip_def)

text \<open>
  C32. Expiry is monotone in the generation (specification, section 8): with a
  non-negative \<^verbatim>\<open>expiryThreshold\<close> and the same generator state, a line that
  expires at generation \<open>g\<close> also expires at any deeper generation, so the set of draws
  that expire a line only grows with its depth.
\<close>

theorem line_grow_expiry_mono:
  assumes "0 \<le> expiryThreshold config" and "g \<le> g'"
    and "expired (fst (line_grow config (l\<lparr>generation := g\<rparr>) s))"
  shows "expired (fst (line_grow config (l\<lparr>generation := g'\<rparr>) s))"
proof -
  have "real g * expiryThreshold config \<le> real g' * expiryThreshold config"
    using assms(1,2) by (simp add: mult_right_mono)
  then show ?thesis using assms(3) by (auto simp: line_grow_eq)
qed

end
