(* ===== verification/Model.thy ===== *)
theory Model
  imports Line
begin

text \<open>
  The growth model \<^verbatim>\<open>buildModel(config, rnd, collisionDetector)\<close>
  (\<^verbatim>\<open>src/js/generator.js\<close>, lines 4--95). Its closure state is the counter
  \<^verbatim>\<open>activeLineCount\<close> and the array \<^verbatim>\<open>seeds\<close> (\<^verbatim>\<open>undefined\<close> until
  \<^verbatim>\<open>generate()\<close>); the generator's \<^verbatim>\<open>seed\<close> variable is shared with it through
  \<^verbatim>\<open>rnd\<close>. All three are fields of the record \<open>model\<close>, passed in and returned by every
  operation. A seed object (lines 42--72) is a record of its angle and its line array;
  a line is identified by the pair (seed index, line index), which is what
  JavaScript's object identity amounts to, since arrays are only appended to.

  The canvas enters twice: \<^verbatim>\<open>buildSeed\<close> reads the global \<^verbatim>\<open>canvas.width\<close> and
  \<^verbatim>\<open>canvas.height\<close>, and the collision detector was built over \<^verbatim>\<open>view.canvas\<close>,
  whose \<^verbatim>\<open>isVisible\<close> it calls. Neither object is in the repository; the record
  \<open>canvas\<close> holds the three values and assumes nothing relating them.

  Errors are values: \<^verbatim>\<open>grow()\<close> before \<^verbatim>\<open>generate()\<close> reads \<^verbatim>\<open>undefined.forEach\<close>
  (a \<open>TypeError\<close>), and \<^verbatim>\<open>Array(n)\<close> with \<open>n\<close> not an array length (negative, or at
  least \<open>2\<^sup>3\<^sup>2\<close>) throws a \<open>RangeError\<close>.
\<close>

record seed =
  seed_angle :: real
  lines :: "line list"

record canvas =
  width :: real
  height :: real
  isVisible :: "real \<Rightarrow> real \<Rightarrow> bool"

record model =
  rngSeed :: int
  activeLineCount :: int
  seeds :: "seed list option"

datatype error = TypeError | RangeError

definition buildModel :: "int \<Rightarrow> model" where
  "buildModel s = \<lparr>rngSeed = s, activeLineCount = 0, seeds = None\<rparr>"

text \<open>A call of \<^verbatim>\<open>rnd(a, b)\<close> from inside the model.\<close>

definition model_rnd :: "real \<Rightarrow> real \<Rightarrow> model \<Rightarrow> real \<times> model" where
  "model_rnd a b st = (let (v, s') = rnd a b (rngSeed st) in (v, st\<lparr>rngSeed := s'\<rparr>))"

definition buildLine ::
  "config \<Rightarrow> real point \<Rightarrow> real \<Rightarrow> (nat \<times> line) option \<Rightarrow> model \<Rightarrow> line \<times> model" where
  "buildLine config q a par st =
     (let (r, st1) = model_rnd 1 0 st;
          line = \<lparr>p0 = q, p1 = q, angle = a,
                  generation = (case par of None \<Rightarrow> 0 | Some (_, pl) \<Rightarrow> generation pl + 1),
                  parent = map_option fst par, active = True, split = False, expired = False,
                  steps = 0, rnd_tag = r\<rparr>;
          st2 = st1\<lparr>activeLineCount := activeLineCount st1 + 1\<rparr>;
          (line', s3) = line_grow config line (rngSeed st2)
      in (line', st2\<lparr>rngSeed := s3\<rparr>))"

definition buildSeed :: "config \<Rightarrow> canvas \<Rightarrow> model \<Rightarrow> seed \<times> model" where
  "buildSeed config cv st =
     (let (a, st1) = model_rnd 0 (pi * 2) st;
          (x, st2) = model_rnd 0 (width cv) st1;
          (y, st3) = model_rnd 0 (height cv) st2;
          (root, st4) = buildLine config \<lparr>px = x, py = y\<rparr> a None st3
      in (\<lparr>seed_angle = a, lines = [root]\<rparr>, st4))"

text \<open>\<^verbatim>\<open>Array(n).fill().map(buildSeed)\<close>: \<open>n\<close> calls, in index order.\<close>

fun build_seeds :: "config \<Rightarrow> canvas \<Rightarrow> nat \<Rightarrow> model \<Rightarrow> seed list \<times> model" where
  "build_seeds config cv 0 st = ([], st)"
| "build_seeds config cv (Suc n) st =
     (let (sd, st1) = buildSeed config cv st; (sds, st2) = build_seeds config cv n st1
      in (sd # sds, st2))"

definition generate :: "config \<Rightarrow> canvas \<Rightarrow> model \<Rightarrow> error + model" where
  "generate config cv st =
     (if seedCount config < 0 \<or> 2 ^ 32 \<le> seedCount config then Inl RangeError
      else let (ss, st1) = build_seeds config cv (nat (seedCount config)) st
           in Inr (st1\<lparr>seeds := Some ss\<rparr>))"

subsection \<open>Access to the forest\<close>

definition lines_of :: "model \<Rightarrow> nat \<Rightarrow> line list" where
  "lines_of st i = lines (the (seeds st) ! i)"

definition set_line :: "nat \<Rightarrow> nat \<Rightarrow> line \<Rightarrow> model \<Rightarrow> model" where
  "set_line i j l st =
     st\<lparr>seeds := map_option (\<lambda>ss. ss[i := (ss ! i)\<lparr>lines := (lines (ss ! i))[j := l]\<rparr>]) (seeds st)\<rparr>"

definition push_line :: "nat \<Rightarrow> line \<Rightarrow> model \<Rightarrow> model" where
  "push_line i l st =
     st\<lparr>seeds := map_option (\<lambda>ss. ss[i := (ss ! i)\<lparr>lines := lines (ss ! i) @ [l]\<rparr>]) (seeds st)\<rparr>"

text \<open>How the detector sees line \<open>j\<close> of seed \<open>i\<close>: its segment, its identity, its parent's.\<close>

definition line_view :: "nat \<Rightarrow> nat \<Rightarrow> line \<Rightarrow> (real, nat \<times> nat) cline" where
  "line_view i j l = \<lparr>p0 = p0 l, p1 = p1 l, cid = (i, j), cparent = map_option (Pair i) (parent l)\<rparr>"

text \<open>
  \<^verbatim>\<open>forEachLineUntilTrue(fn)\<close> (lines 82--88): seeds in order, lines in order within a
  seed, stopping at the first truthy result. The visitor is handed the line (as the
  detector sees it); the second argument \<^verbatim>\<open>config\<close> is used by rendering only.
\<close>

definition forEachLineUntilTrue ::
  "seed list option \<Rightarrow> ('s, (real, nat \<times> nat) cline) traversal" where
  "forEachLineUntilTrue ss fn s0 =
     some_st (\<lambda>s (i, sd). some_st (\<lambda>s (j, l). fn s (line_view i j l)) s (enumerate 0 (lines sd)))
       s0 (enumerate 0 (case ss of None \<Rightarrow> [] | Some xs \<Rightarrow> xs))"

subsection \<open>One tick\<close>

text \<open>
  The body of \<^verbatim>\<open>forEach\<close> in the seed's \<^verbatim>\<open>grow()\<close> (lines 49--70), for line \<open>j\<close>
  of seed \<open>i\<close>: grow it in place; then deactivate it if it expired, or clip and
  deactivate it if the detector reports a collision against the current forest, or
  else, if it split, clear the flag and append a child at its tip, turned by a quarter
  turn in the direction of a coin flip.
\<close>

definition grow_line :: "config \<Rightarrow> canvas \<Rightarrow> nat \<Rightarrow> nat \<Rightarrow> model \<Rightarrow> model" where
  "grow_line config cv i j st =
     (let (line, s1) = line_grow config (lines_of st i ! j) (rngSeed st);
          st1 = set_line i j line (st\<lparr>rngSeed := s1\<rparr>)
      in if expired line then
           set_line i j (line\<lparr>active := False\<rparr>) (st1\<lparr>activeLineCount := activeLineCount st1 - 1\<rparr>)
         else if checkForCollisions (isVisible cv) (line_view i j line) (forEachLineUntilTrue (seeds st1))
         then set_line i j ((line_clip line)\<lparr>active := False\<rparr>)
                (st1\<lparr>activeLineCount := activeLineCount st1 - 1\<rparr>)
         else if split line then
           (let line' = line\<lparr>split := False\<rparr>;
                st2 = set_line i j line' st1;
                (u, st3) = model_rnd 1 0 st2;
                newAngle = angle line' + pi / 2 * (if u < 0.5 then 1 else - 1);
                (child, st4) = buildLine config (p1 line') newAngle (Some (j, line')) st3
            in push_line i child st4)
         else st1)"

text \<open>\<^verbatim>\<open>this.lines.filter(l => l.active)\<close>: the snapshot, as line indices.\<close>

definition active_indices :: "line list \<Rightarrow> nat list" where
  "active_indices ls = filter (\<lambda>j. active (ls ! j)) [0..<length ls]"

definition seed_grow :: "config \<Rightarrow> canvas \<Rightarrow> nat \<Rightarrow> model \<Rightarrow> model" where
  "seed_grow config cv i st = fold (grow_line config cv i) (active_indices (lines_of st i)) st"

definition model_grow :: "config \<Rightarrow> canvas \<Rightarrow> model \<Rightarrow> error + model" where
  "model_grow config cv st =
     (case seeds st of
        None \<Rightarrow> Inl TypeError
      | Some ss \<Rightarrow> Inr (fold (seed_grow config cv) [0..<length ss] st))"

definition isActive :: "model \<Rightarrow> bool" where
  "isActive st \<longleftrightarrow> activeLineCount st > 0"

subsection \<open>Abstract specification of a tick\<close>

text \<open>
  What one tick promises, stated on the forest alone (no generator, no counter):
  \<open>line_tick_spec j l l' new\<close> relates line \<open>j\<close> before (\<open>l\<close>, active) and after
  (\<open>l'\<close>) its turn, and the lines \<open>new\<close> its turn appended to the seed; an inactive
  line is left as it is; the lines appended are the children, in the order of their
  parents. The refinement lemmas below show that \<open>model_grow\<close> implements it.
\<close>

definition advance :: "real \<Rightarrow> real point \<Rightarrow> real point" where
  "advance a p = \<lparr>px = px p + sin a * growthRate, py = py p + cos a * growthRate\<rparr>"

definition child_spec :: "nat \<Rightarrow> line \<Rightarrow> line \<Rightarrow> bool" where
  "child_spec j l ch \<longleftrightarrow>
     parent ch = Some j \<and> generation ch = Suc (generation l) \<and> p0 ch = p1 l \<and>
     p1 ch = advance (angle ch) (p0 ch) \<and> active ch \<and> steps ch = 1 \<and>
     (angle ch = angle l + pi / 2 \<or> angle ch = angle l - pi / 2)"

definition line_tick_spec :: "nat \<Rightarrow> line \<Rightarrow> line \<Rightarrow> line list \<Rightarrow> bool" where
  "line_tick_spec j l l' new \<longleftrightarrow>
     p0 l' = p0 l \<and> angle l' = angle l \<and> generation l' = generation l \<and>
     parent l' = parent l \<and> rnd_tag l' = rnd_tag l \<and> steps l' = Suc (steps l) \<and>
     (expired l \<longrightarrow> expired l') \<and> (generation l = 0 \<longrightarrow> expired l' = expired l) \<and>
     (if active l'
      then \<not> expired l' \<and> p1 l' = advance (angle l) (p1 l) \<and>
           (new = [] \<or> (\<exists>ch. new = [ch] \<and> child_spec j l' ch))
      else new = [] \<and> p1 l' = (if expired l' then advance (angle l) (p1 l) else p1 l))"

definition seed_tick_spec :: "line list \<Rightarrow> line list \<Rightarrow> bool" where
  "seed_tick_spec ls ls' \<longleftrightarrow>
     (\<exists>ls1 news. length ls1 = length ls \<and> length news = length ls \<and>
        ls' = ls1 @ concat news \<and>
        (\<forall>j<length ls. if active (ls ! j) then line_tick_spec j (ls ! j) (ls1 ! j) (news ! j)
                       else ls1 ! j = ls ! j \<and> news ! j = []))"

text \<open>The part of a seed's tick done after the turns of the lines \<open>js\<close>.\<close>

definition seed_part_spec :: "line list \<Rightarrow> nat list \<Rightarrow> line list \<Rightarrow> line list list \<Rightarrow> bool" where
  "seed_part_spec ls js ls1 news \<longleftrightarrow>
     length ls1 = length ls \<and> length news = length ls \<and>
     (\<forall>j<length ls. if j \<in> set js then line_tick_spec j (ls ! j) (ls1 ! j) (news ! j)
                    else ls1 ! j = ls ! j \<and> news ! j = [])"

text \<open>The part of a tick done after the turns of the first \<open>k\<close> seeds.\<close>

definition forest_part_spec :: "seed list \<Rightarrow> nat \<Rightarrow> seed list \<Rightarrow> bool" where
  "forest_part_spec ss k ss' \<longleftrightarrow>
     length ss' = length ss \<and>
     (\<forall>i<length ss. if i < k then seed_angle (ss' ! i) = seed_angle (ss ! i) \<and>
                                  seed_tick_spec (lines (ss ! i)) (lines (ss' ! i))
                     else ss' ! i = ss ! i)"

definition forest_tick_spec :: "seed list \<Rightarrow> seed list \<Rightarrow> bool" where
  "forest_tick_spec ss ss' \<longleftrightarrow>
     list_all2 (\<lambda>sd sd'. seed_angle sd' = seed_angle sd \<and> seed_tick_spec (lines sd) (lines sd'))
       ss ss'"

definition count_active :: "seed list \<Rightarrow> nat" where
  "count_active ss = sum_list (map (\<lambda>sd. length (filter active (lines sd))) ss)"

definition total_lines :: "seed list \<Rightarrow> nat" where
  "total_lines ss = sum_list (map (\<lambda>sd. length (lines sd)) ss)"

subsection \<open>The invariant of the growth model\<close>

text \<open>
  \<open>seg_len l\<close> is the number of unit steps between the origin and the tip: the step
  count, less the one step clipped off if the line stopped on a collision. Every line
  is the segment from its origin along its angle over \<open>seg_len\<close> steps, at least one;
  within a seed the root comes first, has no parent, generation 0 and never expires, and
  every other line's parent comes before it, one generation up. The counter equals the
  number of active lines.
\<close>

definition seg_len :: "line \<Rightarrow> nat" where
  "seg_len l = (if \<not> active l \<and> \<not> expired l then steps l - 1 else steps l)"

definition line_geom_ok :: "line \<Rightarrow> bool" where
  "line_geom_ok l \<longleftrightarrow>
     1 \<le> seg_len l \<and>
     px (p1 l) = px (p0 l) + real (seg_len l) * (sin (angle l) * growthRate) \<and>
     py (p1 l) = py (p0 l) + real (seg_len l) * (cos (angle l) * growthRate)"

definition lines_wf :: "line list \<Rightarrow> bool" where
  "lines_wf ls \<longleftrightarrow>
     ls \<noteq> [] \<and> parent (ls ! 0) = None \<and> generation (ls ! 0) = 0 \<and> \<not> expired (ls ! 0) \<and>
     (\<forall>j<length ls. 0 < j \<longrightarrow>
        (case parent (ls ! j) of None \<Rightarrow> False
         | Some k \<Rightarrow> k < j \<and> generation (ls ! j) = Suc (generation (ls ! k)))) \<and>
     list_all line_geom_ok ls"

definition model_inv :: "model \<Rightarrow> bool" where
  "model_inv st \<longleftrightarrow>
     (case seeds st of
        None \<Rightarrow> activeLineCount st = 0
      | Some ss \<Rightarrow> activeLineCount st = int (count_active ss) \<and> list_all (\<lambda>sd. lines_wf (lines sd)) ss)"

text \<open>
  The states a run goes through: \<^verbatim>\<open>render.init()\<close> builds the model and calls
  \<^verbatim>\<open>generate()\<close> once (lines 227--229), and every frame calls \<^verbatim>\<open>grow()\<close>.
\<close>

inductive reachable :: "config \<Rightarrow> canvas \<Rightarrow> model \<Rightarrow> bool" for config cv where
  built: "reachable config cv (buildModel s)"
| generated: "generate config cv (buildModel s) = Inr st \<Longrightarrow> reachable config cv st"
| grown: "reachable config cv st \<Longrightarrow> model_grow config cv st = Inr st' \<Longrightarrow> reachable config cv st'"

subsection \<open>A line's own step and its creation\<close>

lemma line_grow_shape:
  assumes "line_grow config l s = (l', s')"
  shows "s' = s + 2 * mulberry32_incr \<and>
    (\<exists>sp ex. l' = l\<lparr>p1 := advance (angle l) (p1 l), steps := Suc (steps l), split := sp,
                     expired := ex\<rparr> \<and>
       (expired l \<longrightarrow> ex) \<and> (generation l = 0 \<longrightarrow> ex = expired l))"
proof -
  let ?u1 = "fst (mulberry32 s)" and ?u2 = "fst (mulberry32 (s + mulberry32_incr))"
  have nonneg: "\<not> ?u2 < 0" using mulberry32_unit_bounds [of "s + mulberry32_incr"] by simp
  have eq: "line_grow config l s =
     (let l2 = l\<lparr>p1 := advance (angle l) (p1 l), steps := Suc (steps l),
                 split := (?u1 < pBifurcation config)\<rparr>
      in (if ?u2 < real (generation l) * expiryThreshold config then l2\<lparr>expired := True\<rparr> else l2,
          s + 2 * mulberry32_incr))"
    by (simp add: line_grow_def rnd_eq advance_def Let_def)
  show ?thesis
  proof (cases "?u2 < real (generation l) * expiryThreshold config")
    case True
    then have "generation l \<noteq> 0" using nonneg by (cases "generation l") auto
    with True assms show ?thesis unfolding eq Let_def by fastforce
  next
    case False
    with assms have "l' = l\<lparr>p1 := advance (angle l) (p1 l), steps := Suc (steps l),
        split := ?u1 < pBifurcation config, expired := expired l\<rparr> \<and> s' = s + 2 * mulberry32_incr"
      unfolding eq Let_def by (cases l) auto
    then show ?thesis by blast
  qed
qed

lemma model_rnd_eq:
  "model_rnd a b st = (fst (rnd a b (rngSeed st)), st\<lparr>rngSeed := rngSeed st + mulberry32_incr\<rparr>)"
  by (simp add: model_rnd_def rnd_eq)

lemma buildLine_shape:
  assumes "buildLine config q a par st = (l, st')"
  shows "p0 l = q \<and> p1 l = advance a q \<and> angle l = a \<and>
    generation l = (case par of None \<Rightarrow> 0 | Some (_, pl) \<Rightarrow> Suc (generation pl)) \<and>
    parent l = map_option fst par \<and> active l \<and> steps l = 1 \<and>
    (par = None \<longrightarrow> \<not> expired l) \<and>
    st' = st\<lparr>rngSeed := rngSeed st + 3 * mulberry32_incr, activeLineCount := activeLineCount st + 1\<rparr>"
proof -
  define L where "L = \<lparr>p0 = q, p1 = q, angle = a,
    generation = (case par of None \<Rightarrow> 0 | Some (_, pl) \<Rightarrow> generation pl + 1),
    parent = map_option fst par, active = True, split = False, expired = False,
    steps = 0, rnd_tag = fst (rnd 1 0 (rngSeed st))\<rparr>"
  obtain l0 s3 where lg: "line_grow config L (rngSeed st + mulberry32_incr) = (l0, s3)"
    by fastforce
  have "buildLine config q a par st =
      (l0, st\<lparr>rngSeed := s3, activeLineCount := activeLineCount st + 1\<rparr>)"
    using lg by (simp add: buildLine_def model_rnd_eq L_def Let_def)
  with assms have l: "l = l0" and st': "st' = st\<lparr>rngSeed := s3, activeLineCount := activeLineCount st + 1\<rparr>"
    by simp_all
  from line_grow_shape [OF lg] obtain sp ex where
    s3: "s3 = rngSeed st + 3 * mulberry32_incr" and
    l0: "l0 = L\<lparr>p1 := advance (angle L) (p1 L), steps := Suc (steps L), split := sp, expired := ex\<rparr>" and
    ex: "generation L = 0 \<longrightarrow> ex = expired L"
    by auto
  show ?thesis
    using l st' s3 l0 ex by (auto simp: L_def split: option.splits)
qed

subsection \<open>One line's turn implements its specification\<close>

lemma set_line_seeds [simp]:
  "seeds (set_line i j l st) =
     map_option (\<lambda>ss. ss[i := (ss ! i)\<lparr>lines := (lines (ss ! i))[j := l]\<rparr>]) (seeds st)"
  by (simp add: set_line_def)

lemma set_line_other [simp]:
  "rngSeed (set_line i j l st) = rngSeed st" "activeLineCount (set_line i j l st) = activeLineCount st"
  by (simp_all add: set_line_def)

lemma push_line_seeds [simp]:
  "seeds (push_line i l st) =
     map_option (\<lambda>ss. ss[i := (ss ! i)\<lparr>lines := lines (ss ! i) @ [l]\<rparr>]) (seeds st)"
  by (simp add: push_line_def)

lemma push_line_other [simp]:
  "rngSeed (push_line i l st) = rngSeed st" "activeLineCount (push_line i l st) = activeLineCount st"
  by (simp_all add: push_line_def)

lemma advance_clip [simp]: "p1 (line_clip (l\<lparr>p1 := advance (angle l) q, steps := n, split := sp, expired := ex\<rparr>)) = q"
  by (simp add: line_clip_def advance_def)

lemma model_eqI:
  "rngSeed st = r \<Longrightarrow> activeLineCount st = c \<Longrightarrow> seeds st = x \<Longrightarrow>
   st = \<lparr>rngSeed = r, activeLineCount = c, seeds = x\<rparr>"
  by simp

lemma set_line_twice: "set_line i j L (set_line i j L' st) = set_line i j L st"
proof (cases "seeds st")
  case (Some ss)
  then show ?thesis by (cases "i < length ss") (simp_all add: set_line_def list_update_beyond not_less)
qed (simp add: set_line_def)

lemma set_line_update_other:
  "set_line i j L (st\<lparr>activeLineCount := c\<rparr>) = (set_line i j L st)\<lparr>activeLineCount := c\<rparr>"
  "set_line i j L (st\<lparr>rngSeed := r\<rparr>) = (set_line i j L st)\<lparr>rngSeed := r\<rparr>"
  by (simp_all add: set_line_def)

text \<open>
  The four outcomes of a line's turn, with the in-place writes merged: expired, stopped
  by a collision, split (the child built on the state after the coin flip), or grown.
\<close>

lemma grow_line_eq:
  assumes lg: "line_grow config (lines_of st i ! j) (rngSeed st) = (l, s1)"
  shows "grow_line config cv i j st =
    (if expired l then set_line i j (l\<lparr>active := False\<rparr>) (st\<lparr>rngSeed := s1, activeLineCount := activeLineCount st - 1\<rparr>)
     else if checkForCollisions (isVisible cv) (line_view i j l) (forEachLineUntilTrue (seeds (set_line i j l st)))
     then set_line i j ((line_clip l)\<lparr>active := False\<rparr>) (st\<lparr>rngSeed := s1, activeLineCount := activeLineCount st - 1\<rparr>)
     else if split l then
       push_line i (fst (buildLine config (p1 l) (angle l + pi / 2 * (if fst (rnd 1 0 s1) < 0.5 then 1 else - 1))
                         (Some (j, l\<lparr>split := False\<rparr>))
                         ((set_line i j (l\<lparr>split := False\<rparr>) st)\<lparr>rngSeed := s1 + mulberry32_incr\<rparr>)))
         ((set_line i j (l\<lparr>split := False\<rparr>) st)\<lparr>rngSeed := s1 + 4 * mulberry32_incr,
            activeLineCount := activeLineCount st + 1\<rparr>)
     else set_line i j l (st\<lparr>rngSeed := s1\<rparr>))"
proof -
  have bl: "snd (buildLine config q a par st') =
      st'\<lparr>rngSeed := rngSeed st' + 3 * mulberry32_incr, activeLineCount := activeLineCount st' + 1\<rparr>"
    for q a par st'
    using buildLine_shape [of config q a par st' "fst (buildLine config q a par st')" "snd (buildLine config q a par st')"]
    by simp
  show ?thesis
    by (simp add: grow_line_def lg Let_def set_line_twice set_line_update_other model_rnd_eq split_beta bl
        algebra_simps)
qed

lemma grow_line_refines:
  assumes ss: "seeds st = Some ss" and i: "i < length ss" and j: "j < length (lines (ss ! i))"
    and act: "active (lines (ss ! i) ! j)"
  shows "\<exists>l' new. line_tick_spec j (lines (ss ! i) ! j) l' new \<and>
    grow_line config cv i j st =
      \<lparr>rngSeed = rngSeed st + (2 + 4 * int (length new)) * mulberry32_incr,
       activeLineCount = activeLineCount st - (if active l' then 0 else 1) + int (length new),
       seeds = Some (ss[i := (ss ! i)\<lparr>lines := (lines (ss ! i))[j := l'] @ new\<rparr>])\<rparr>"
proof -
  let ?L = "lines (ss ! i) ! j"
  obtain l s1 where lg: "line_grow config (lines_of st i ! j) (rngSeed st) = (l, s1)" by fastforce
  then have lg': "line_grow config ?L (rngSeed st) = (l, s1)" by (simp add: lines_of_def ss)
  from line_grow_shape [OF lg'] obtain sp ex where
    s1: "s1 = rngSeed st + 2 * mulberry32_incr" and
    l: "l = ?L\<lparr>p1 := advance (angle ?L) (p1 ?L), steps := Suc (steps ?L), split := sp, expired := ex\<rparr>" and
    ex: "(expired ?L \<longrightarrow> ex) \<and> (generation ?L = 0 \<longrightarrow> ex = expired ?L)"
    by auto
  note eq = grow_line_eq [OF lg, of cv]
  have base: "p0 l = p0 ?L \<and> angle l = angle ?L \<and> generation l = generation ?L \<and>
      parent l = parent ?L \<and> rnd_tag l = rnd_tag ?L \<and> steps l = Suc (steps ?L) \<and>
      (expired ?L \<longrightarrow> expired l) \<and> (generation ?L = 0 \<longrightarrow> expired l = expired ?L) \<and>
      active l = active ?L"
    using ex by (simp add: l)
  have set: "set_line i j L (st\<lparr>rngSeed := r, activeLineCount := c\<rparr>) =
      \<lparr>rngSeed = r, activeLineCount = c, seeds = Some (ss[i := (ss ! i)\<lparr>lines := (lines (ss ! i))[j := L] @ []\<rparr>])\<rparr>"
    for L r c by (intro model_eqI) (simp_all add: set_line_def ss)
  have set': "set_line i j L (st\<lparr>rngSeed := r\<rparr>) =
      \<lparr>rngSeed = r, activeLineCount = activeLineCount st,
       seeds = Some (ss[i := (ss ! i)\<lparr>lines := (lines (ss ! i))[j := L] @ []\<rparr>])\<rparr>"
    for L r by (intro model_eqI) (simp_all add: set_line_def ss)
  show ?thesis
  proof (cases "expired l")
    case ex: True
    have "line_tick_spec j ?L (l\<lparr>active := False\<rparr>) []"
      using base ex by (simp add: line_tick_spec_def l)
    with ex show ?thesis unfolding eq
      by (intro exI [of _ "l\<lparr>active := False\<rparr>"] exI [of _ "[]"]) (simp add: set s1 algebra_simps)
  next
    case ne: False
    show ?thesis
    proof (cases "checkForCollisions (isVisible cv) (line_view i j l) (forEachLineUntilTrue (seeds (set_line i j l st)))")
      case coll: True
      have "line_tick_spec j ?L ((line_clip l)\<lparr>active := False\<rparr>) []"
        using base ne by (simp add: line_tick_spec_def l) (simp add: line_clip_def)
      with ne coll show ?thesis unfolding eq
        by (intro exI [of _ "(line_clip l)\<lparr>active := False\<rparr>"] exI [of _ "[]"]) (simp add: set s1 algebra_simps)
    next
      case nc: False
      show ?thesis
      proof (cases "split l")
        case ns: False
        have "line_tick_spec j ?L l []"
          using base ne act by (simp add: line_tick_spec_def l)
        then show ?thesis using ne nc ns base act unfolding eq
          by (intro exI [of _ l] exI [of _ "[]"]) (simp add: set' s1 algebra_simps)
      next
        case sp: True
        define line' where "line' = l\<lparr>split := False\<rparr>"
        define na where "na = angle l + pi / 2 * (if fst (rnd 1 0 s1) < 0.5 then 1 else - 1)"
        define st3 where "st3 = (set_line i j line' st)\<lparr>rngSeed := s1 + mulberry32_incr\<rparr>"
        obtain ch st4 where bl: "buildLine config (p1 l) na (Some (j, line')) st3 = (ch, st4)"
          by fastforce
        have res: "grow_line config cv i j st =
            push_line i ch ((set_line i j line' st)\<lparr>rngSeed := s1 + 4 * mulberry32_incr,
              activeLineCount := activeLineCount st + 1\<rparr>)"
          using ne nc sp bl unfolding eq by (simp add: line'_def na_def st3_def)
        from buildLine_shape [OF bl] have chs: "p0 ch = p1 l \<and> p1 ch = advance na (p1 l) \<and>
            angle ch = na \<and> generation ch = Suc (generation line') \<and> parent ch = Some j \<and>
            active ch \<and> steps ch = 1"
          by simp
        have "child_spec j line' ch"
          using chs by (auto simp: child_spec_def na_def line'_def)
        then have "line_tick_spec j ?L line' [ch]"
          using base ne act by (simp add: line_tick_spec_def l line'_def)
        moreover have "grow_line config cv i j st =
            \<lparr>rngSeed = rngSeed st + (2 + 4 * int (length [ch])) * mulberry32_incr,
             activeLineCount = activeLineCount st - (if active line' then 0 else 1) + int (length [ch]),
             seeds = Some (ss[i := (ss ! i)\<lparr>lines := (lines (ss ! i))[j := line'] @ [ch]\<rparr>])\<rparr>"
          using base act unfolding res
          by (intro model_eqI) (simp_all add: set_line_def push_line_def ss i s1 line'_def algebra_simps)
        ultimately show ?thesis by blast
      qed
    qed
  qed
qed

subsection \<open>A seed's turn implements its specification\<close>

lemma line_tick_spec_new:
  "line_tick_spec j l l' new \<Longrightarrow>
   length (filter active new) = length new \<and> (new \<noteq> [] \<longrightarrow> active l')"
  by (auto simp: line_tick_spec_def child_spec_def split: if_splits)

lemma model_eq_self: "st = \<lparr>rngSeed = rngSeed st, activeLineCount = activeLineCount st, seeds = seeds st\<rparr>"
  by simp

lemma fold_grow_line:
  assumes ss: "seeds st = Some ss" and i: "i < length ss"
    and "distinct js" and "\<forall>j\<in>set js. j < length (lines (ss ! i)) \<and> active (lines (ss ! i) ! j)"
  shows "\<exists>ls1 news. seed_part_spec (lines (ss ! i)) js ls1 news \<and>
    fold (grow_line config cv i) js st =
      \<lparr>rngSeed = rngSeed st + (2 * int (length js) + 4 * int (length (concat (map ((!) news) js)))) * mulberry32_incr,
       activeLineCount = activeLineCount st + int (length (filter active (ls1 @ concat (map ((!) news) js))))
                         - int (length (filter active (lines (ss ! i)))),
       seeds = Some (ss[i := (ss ! i)\<lparr>lines := ls1 @ concat (map ((!) news) js)\<rparr>])\<rparr>"
  using assms(3,4)
proof (induction js rule: rev_induct)
  case Nil
  let ?ls = "lines (ss ! i)"
  have "seed_part_spec ?ls [] ?ls (replicate (length ?ls) [])"
    by (simp add: seed_part_spec_def)
  moreover have "fold (grow_line config cv i) [] st =
      \<lparr>rngSeed = rngSeed st + (2 * int (length ([] :: nat list)) + 4 * int (length (concat (map ((!) (replicate (length ?ls) [])) ([] :: nat list))))) * mulberry32_incr,
       activeLineCount = activeLineCount st + int (length (filter active (?ls @ concat (map ((!) (replicate (length ?ls) [])) ([] :: nat list)))))
                         - int (length (filter active ?ls)),
       seeds = Some (ss[i := (ss ! i)\<lparr>lines := ?ls @ concat (map ((!) (replicate (length ?ls) [])) ([] :: nat list))\<rparr>])\<rparr>"
    by (simp add: ss)
  ultimately show ?case by blast
next
  case (snoc j js)
  let ?ls = "lines (ss ! i)"
  from snoc.prems have d: "distinct js" and jn: "j \<notin> set js"
    and js: "\<forall>k\<in>set js. k < length ?ls \<and> active (?ls ! k)"
    and j: "j < length ?ls" and act: "active (?ls ! j)"
    by auto
  from snoc.IH [OF d js] obtain ls1 news where
    part: "seed_part_spec ?ls js ls1 news" and
    S: "fold (grow_line config cv i) js st =
      \<lparr>rngSeed = rngSeed st + (2 * int (length js) + 4 * int (length (concat (map ((!) news) js)))) * mulberry32_incr,
       activeLineCount = activeLineCount st + int (length (filter active (ls1 @ concat (map ((!) news) js))))
                         - int (length (filter active ?ls)),
       seeds = Some (ss[i := (ss ! i)\<lparr>lines := ls1 @ concat (map ((!) news) js)\<rparr>])\<rparr>"
    by blast
  let ?K = "concat (map ((!) news) js)"
  let ?S = "fold (grow_line config cv i) js st"
  let ?ss1 = "ss[i := (ss ! i)\<lparr>lines := ls1 @ ?K\<rparr>]"
  from part j jn have len1: "length ls1 = length ?ls" and lenn: "length news = length ?ls"
    and ls1j: "ls1 ! j = ?ls ! j" and newsj: "news ! j = []"
    by (auto simp: seed_part_spec_def)
  have i1: "i < length ?ss1" using i by simp
  have j1: "j < length (lines (?ss1 ! i))" using i j len1 by simp
  have at1: "lines (?ss1 ! i) ! j = ?ls ! j" using i j len1 ls1j by (simp add: nth_append)
  have seedsS: "seeds ?S = Some ?ss1" using S by simp
  from grow_line_refines [OF seedsS i1 j1, of config cv] act at1 obtain l' new where
    lt: "line_tick_spec j (?ls ! j) l' new" and
    G: "grow_line config cv i j ?S =
      \<lparr>rngSeed = rngSeed ?S + (2 + 4 * int (length new)) * mulberry32_incr,
       activeLineCount = activeLineCount ?S - (if active l' then 0 else 1) + int (length new),
       seeds = Some (?ss1[i := (?ss1 ! i)\<lparr>lines := (lines (?ss1 ! i))[j := l'] @ new\<rparr>])\<rparr>"
    by auto
  let ?ls1' = "ls1[j := l']" and ?news' = "news[j := new]"
  have K': "concat (map ((!) ?news') (js @ [j])) = ?K @ new"
  proof -
    have "?news' ! x = news ! x" if "x \<in> set js" for x
      using jn that by (metis nth_list_update_neq)
    then have meq: "map ((!) ?news') js = map ((!) news) js" by (simp add: map_eq_conv)
    show ?thesis
      unfolding map_append concat_append meq using j lenn by simp
  qed
  have part': "seed_part_spec ?ls (js @ [j]) ?ls1' ?news'"
    using part lt j jn unfolding seed_part_spec_def by (auto simp: nth_list_update)
  have lines': "(ls1 @ ?K)[j := l'] @ new = ?ls1' @ ?K @ new"
    using j len1 by (simp add: list_update_append)
  have cnt: "int (length (filter active ?ls1')) =
      int (length (filter active ls1)) - 1 + (if active l' then 1 else 0)"
    using length_filter_update_plus [of j ls1 active l'] j len1 act ls1j
    by (cases "active l'") simp_all
  have newact: "length (filter active new) = length new"
    using line_tick_spec_new [OF lt] by simp
  have "fold (grow_line config cv i) (js @ [j]) st =
      \<lparr>rngSeed = rngSeed st + (2 * int (length (js @ [j])) + 4 * int (length (concat (map ((!) ?news') (js @ [j]))))) * mulberry32_incr,
       activeLineCount = activeLineCount st + int (length (filter active (?ls1' @ concat (map ((!) ?news') (js @ [j])))))
                         - int (length (filter active ?ls)),
       seeds = Some (ss[i := (ss ! i)\<lparr>lines := ?ls1' @ concat (map ((!) ?news') (js @ [j]))\<rparr>])\<rparr>"
  proof (intro model_eqI)
    show "rngSeed (fold (grow_line config cv i) (js @ [j]) st) =
        rngSeed st + (2 * int (length (js @ [j])) + 4 * int (length (concat (map ((!) ?news') (js @ [j]))))) * mulberry32_incr"
      using G S K' by (simp add: algebra_simps)
    show "activeLineCount (fold (grow_line config cv i) (js @ [j]) st) =
        activeLineCount st + int (length (filter active (?ls1' @ concat (map ((!) ?news') (js @ [j])))))
        - int (length (filter active ?ls))"
      using G S K' cnt newact lines' i by (cases "active l'") (simp_all add: algebra_simps)
    show "seeds (fold (grow_line config cv i) (js @ [j]) st) =
        Some (ss[i := (ss ! i)\<lparr>lines := ?ls1' @ concat (map ((!) ?news') (js @ [j]))\<rparr>])"
      using G S K' lines' i by simp
  qed
  with part' show ?case by blast
qed

lemma length_active_indices: "length (active_indices ls) = length (filter active ls)"
proof -
  have "filter active ls = filter active (map ((!) ls) [0..<length ls])"
    by (simp add: map_nth)
  also have "\<dots> = map ((!) ls) (active_indices ls)"
    by (simp add: filter_map active_indices_def comp_def)
  finally show ?thesis by simp
qed

lemma seed_grow_refines:
  assumes ss: "seeds st = Some ss" and i: "i < length ss"
  shows "\<exists>ls'. seed_tick_spec (lines (ss ! i)) ls' \<and>
    seed_grow config cv i st =
      \<lparr>rngSeed = rngSeed st + (2 * int (length (filter active (lines (ss ! i))))
                            + 4 * (int (length ls') - int (length (lines (ss ! i))))) * mulberry32_incr,
       activeLineCount = activeLineCount st + int (length (filter active ls'))
                         - int (length (filter active (lines (ss ! i)))),
       seeds = Some (ss[i := (ss ! i)\<lparr>lines := ls'\<rparr>])\<rparr>"
proof -
  let ?ls = "lines (ss ! i)"
  let ?js = "active_indices ?ls"
  have js: "distinct ?js" "\<forall>j\<in>set ?js. j < length ?ls \<and> active (?ls ! j)"
    by (auto simp: active_indices_def)
  from fold_grow_line [OF ss i js, of config cv] obtain ls1 news where
    part: "seed_part_spec ?ls ?js ls1 news" and
    F: "fold (grow_line config cv i) ?js st =
      \<lparr>rngSeed = rngSeed st + (2 * int (length ?js) + 4 * int (length (concat (map ((!) news) ?js)))) * mulberry32_incr,
       activeLineCount = activeLineCount st + int (length (filter active (ls1 @ concat (map ((!) news) ?js))))
                         - int (length (filter active ?ls)),
       seeds = Some (ss[i := (ss ! i)\<lparr>lines := ls1 @ concat (map ((!) news) ?js)\<rparr>])\<rparr>"
    by blast
  from part have len1: "length ls1 = length ?ls" and lenn: "length news = length ?ls"
    and nil: "\<And>j. j < length ?ls \<Longrightarrow> \<not> active (?ls ! j) \<Longrightarrow> news ! j = []"
    by (auto simp: seed_part_spec_def active_indices_def)
  have K: "concat (map ((!) news) ?js) = concat news"
  proof -
    have "concat (map ((!) news) ?js) = concat (map ((!) news) [0..<length ?ls])"
      unfolding active_indices_def by (rule concat_map_filter_nil) (simp add: nil)
    also have "\<dots> = concat news"
      using lenn by (metis map_nth)
    finally show ?thesis .
  qed
  have "seed_tick_spec ?ls (ls1 @ concat news)"
    unfolding seed_tick_spec_def
  proof (intro exI conjI)
    show "length ls1 = length ?ls" "length news = length ?ls" "ls1 @ concat news = ls1 @ concat news"
      using len1 lenn by simp_all
    show "\<forall>j<length ?ls. if active (?ls ! j) then line_tick_spec j (?ls ! j) (ls1 ! j) (news ! j)
                        else ls1 ! j = ?ls ! j \<and> news ! j = []"
      using part by (auto simp: seed_part_spec_def active_indices_def)
  qed
  moreover have "seed_grow config cv i st =
      \<lparr>rngSeed = rngSeed st + (2 * int (length (filter active ?ls))
                            + 4 * (int (length (ls1 @ concat news)) - int (length ?ls))) * mulberry32_incr,
       activeLineCount = activeLineCount st + int (length (filter active (ls1 @ concat news)))
                         - int (length (filter active ?ls)),
       seeds = Some (ss[i := (ss ! i)\<lparr>lines := ls1 @ concat news\<rparr>])\<rparr>"
    using F K len1 by (simp add: seed_grow_def lines_of_def ss length_active_indices)
  ultimately show ?thesis by blast
qed

subsection \<open>A tick implements its specification\<close>

lemma count_active_update:
  "i < length ss \<Longrightarrow>
   int (count_active (ss[i := sd])) =
   int (count_active ss) - int (length (filter active (lines (ss ! i)))) + int (length (filter active (lines sd)))"
  using sum_list_map_update_plus [of i ss "\<lambda>sd. length (filter active (lines sd))" sd]
  by (simp add: count_active_def)

lemma total_lines_update:
  "i < length ss \<Longrightarrow>
   int (total_lines (ss[i := sd])) =
   int (total_lines ss) - int (length (lines (ss ! i))) + int (length (lines sd))"
  using sum_list_map_update_plus [of i ss "\<lambda>sd. length (lines sd)" sd]
  by (simp add: total_lines_def)

lemma count_active_take_Suc:
  "k < length ss \<Longrightarrow>
   count_active (take (Suc k) ss) = count_active (take k ss) + length (filter active (lines (ss ! k)))"
  by (simp add: count_active_def take_Suc_conv_app_nth)

lemma fold_seed_grow:
  assumes ss: "seeds st = Some ss" and k: "k \<le> length ss"
  shows "\<exists>ss'. forest_part_spec ss k ss' \<and>
    fold (seed_grow config cv) [0..<k] st =
      \<lparr>rngSeed = rngSeed st + (2 * int (count_active (take k ss))
                            + 4 * (int (total_lines ss') - int (total_lines ss))) * mulberry32_incr,
       activeLineCount = activeLineCount st + int (count_active ss') - int (count_active ss),
       seeds = Some ss'\<rparr>"
  using k
proof (induction k)
  case 0
  have "forest_part_spec ss 0 ss" by (simp add: forest_part_spec_def)
  then show ?case using ss by (intro exI [of _ ss]) (simp add: count_active_def)
next
  case (Suc k)
  then have k: "k < length ss" by simp
  from Suc.IH k obtain ss1 where
    part: "forest_part_spec ss k ss1" and
    S: "fold (seed_grow config cv) [0..<k] st =
      \<lparr>rngSeed = rngSeed st + (2 * int (count_active (take k ss))
                            + 4 * (int (total_lines ss1) - int (total_lines ss))) * mulberry32_incr,
       activeLineCount = activeLineCount st + int (count_active ss1) - int (count_active ss),
       seeds = Some ss1\<rparr>"
    by auto
  let ?S = "fold (seed_grow config cv) [0..<k] st"
  from part k have len1: "length ss1 = length ss" and at: "ss1 ! k = ss ! k"
    by (auto simp: forest_part_spec_def)
  have seedsS: "seeds ?S = Some ss1" using S by simp
  from seed_grow_refines [OF seedsS, of k config cv] k len1 at obtain ls' where
    st: "seed_tick_spec (lines (ss ! k)) ls'" and
    G: "seed_grow config cv k ?S =
      \<lparr>rngSeed = rngSeed ?S + (2 * int (length (filter active (lines (ss ! k))))
                            + 4 * (int (length ls') - int (length (lines (ss ! k))))) * mulberry32_incr,
       activeLineCount = activeLineCount ?S + int (length (filter active ls'))
                         - int (length (filter active (lines (ss ! k)))),
       seeds = Some (ss1[k := (ss ! k)\<lparr>lines := ls'\<rparr>])\<rparr>"
    by auto
  let ?ss' = "ss1[k := (ss ! k)\<lparr>lines := ls'\<rparr>]"
  have part': "forest_part_spec ss (Suc k) ?ss'"
    using part st k len1 by (auto simp: forest_part_spec_def nth_list_update less_Suc_eq)
  have cnt: "int (count_active ?ss') =
      int (count_active ss1) - int (length (filter active (lines (ss ! k)))) + int (length (filter active ls'))"
    using count_active_update [of k ss1] k len1 at by simp
  have tot: "int (total_lines ?ss') =
      int (total_lines ss1) - int (length (lines (ss ! k))) + int (length ls')"
    using total_lines_update [of k ss1] k len1 at by simp
  have "fold (seed_grow config cv) [0..<Suc k] st = seed_grow config cv k ?S"
    by simp
  also have "\<dots> =
      \<lparr>rngSeed = rngSeed st + (2 * int (count_active (take (Suc k) ss))
                            + 4 * (int (total_lines ?ss') - int (total_lines ss))) * mulberry32_incr,
       activeLineCount = activeLineCount st + int (count_active ?ss') - int (count_active ss),
       seeds = Some ?ss'\<rparr>"
    unfolding G
    by (intro model_eqI) (simp_all add: S cnt tot count_active_take_Suc [OF k] algebra_simps)
  finally have "fold (seed_grow config cv) [0..<Suc k] st =
      \<lparr>rngSeed = rngSeed st + (2 * int (count_active (take (Suc k) ss))
                            + 4 * (int (total_lines ?ss') - int (total_lines ss))) * mulberry32_incr,
       activeLineCount = activeLineCount st + int (count_active ?ss') - int (count_active ss),
       seeds = Some ?ss'\<rparr>" .
  with part' show ?case by blast
qed


subsection \<open>The invariant holds in every reachable state\<close>

lemma buildSeed_shape:
  assumes "buildSeed config cv st = (sd, st')"
  shows "(\<exists>rl. lines sd = [rl] \<and> parent rl = None \<and> generation rl = 0 \<and>
            \<not> expired rl \<and> active rl \<and> steps rl = 1 \<and> angle rl = seed_angle sd \<and>
            p1 rl = advance (angle rl) (p0 rl)) \<and>
         st' = st\<lparr>rngSeed := rngSeed st + 6 * mulberry32_incr, activeLineCount := activeLineCount st + 1\<rparr>"
proof -
  define a where "a = fst (rnd 0 (pi * 2) (rngSeed st))"
  define x where "x = fst (rnd 0 (width cv) (rngSeed st + mulberry32_incr))"
  define y where "y = fst (rnd 0 (height cv) (rngSeed st + 2 * mulberry32_incr))"
  define st3 where "st3 = st\<lparr>rngSeed := rngSeed st + 3 * mulberry32_incr\<rparr>"
  obtain rl st4 where bl: "buildLine config \<lparr>px = x, py = y\<rparr> a None st3 = (rl, st4)"
    by fastforce
  have "buildSeed config cv st = (\<lparr>seed_angle = a, lines = [rl]\<rparr>, st4)"
    using bl by (simp add: buildSeed_def model_rnd_eq a_def x_def y_def st3_def algebra_simps)
  with assms have sd: "sd = \<lparr>seed_angle = a, lines = [rl]\<rparr>" and st': "st' = st4" by simp_all
  from buildLine_shape [OF bl] show ?thesis
    by (simp add: sd st' st3_def algebra_simps)
qed

lemma root_wf:
  "parent rl = None \<Longrightarrow> generation rl = 0 \<Longrightarrow> \<not> expired rl \<Longrightarrow> active rl \<Longrightarrow>
   steps rl = 1 \<Longrightarrow> p1 rl = advance (angle rl) (p0 rl) \<Longrightarrow> lines_wf [rl]"
  by (simp add: lines_wf_def line_geom_ok_def seg_len_def advance_def)

lemma build_seeds_shape:
  assumes "build_seeds config cv n st = (ss, st')"
  shows "length ss = n \<and>
         list_all (\<lambda>sd. lines_wf (lines sd) \<and> count_active [sd] = 1 \<and>
                        (\<exists>r. lines sd = [r] \<and> active r \<and> parent r = None \<and> steps r = 1)) ss \<and>
         st' = st\<lparr>rngSeed := rngSeed st + 6 * int n * mulberry32_incr,
                   activeLineCount := activeLineCount st + int n\<rparr>"
  using assms
proof (induction n arbitrary: st ss st')
  case 0
  then show ?case by simp
next
  case (Suc n)
  obtain sd st1 where b: "buildSeed config cv st = (sd, st1)" by fastforce
  obtain sds st2 where r: "build_seeds config cv n st1 = (sds, st2)" by fastforce
  from Suc.prems b r have ss: "ss = sd # sds" and st': "st' = st2" by simp_all
  from buildSeed_shape [OF b] obtain rl where
    rl: "lines sd = [rl] \<and> parent rl = None \<and> generation rl = 0 \<and> \<not> expired rl \<and>
           active rl \<and> steps rl = 1 \<and> p1 rl = advance (angle rl) (p0 rl)" and
    st1: "st1 = st\<lparr>rngSeed := rngSeed st + 6 * mulberry32_incr, activeLineCount := activeLineCount st + 1\<rparr>"
    by blast
  have "lines_wf (lines sd) \<and> count_active [sd] = 1 \<and>
      (\<exists>r. lines sd = [r] \<and> active r \<and> parent r = None \<and> steps r = 1)"
    using rl root_wf [of rl] by (simp add: count_active_def)
  with Suc.IH [OF r] show ?case
    by (simp add: ss st' st1 algebra_simps)
qed

lemma count_active_ones:
  "list_all (\<lambda>sd. count_active [sd] = 1) ss \<Longrightarrow> count_active ss = length ss"
  by (induction ss) (auto simp: count_active_def)

lemma generate_Inr:
  "0 \<le> seedCount config \<Longrightarrow> seedCount config < 2 ^ 32 \<Longrightarrow> \<exists>st'. generate config cv st = Inr st'"
  by (simp add: generate_def split_beta)

lemma generate_shape:
  assumes "generate config cv st = Inr st'"
  shows "0 \<le> seedCount config \<and> (\<exists>ss. seeds st' = Some ss \<and> length ss = nat (seedCount config) \<and>
           count_active ss = nat (seedCount config) \<and> list_all (\<lambda>sd. lines_wf (lines sd)) ss \<and>
         list_all (\<lambda>sd. \<exists>r. lines sd = [r] \<and> active r \<and> parent r = None \<and> steps r = 1) ss) \<and>
         activeLineCount st' = activeLineCount st + seedCount config \<and>
         rngSeed st' = rngSeed st + 6 * seedCount config * mulberry32_incr"
proof -
  from assms have c: "0 \<le> seedCount config" "\<not> 2 ^ 32 \<le> seedCount config"
    by (auto simp: generate_def split: if_splits)
  obtain ss st1 where b: "build_seeds config cv (nat (seedCount config)) st = (ss, st1)" by fastforce
  with assms c have st': "st' = st1\<lparr>seeds := Some ss\<rparr>" by (simp add: generate_def)
  from build_seeds_shape [OF b] have
    sh: "length ss = nat (seedCount config)"
        "list_all (\<lambda>sd. lines_wf (lines sd) \<and> count_active [sd] = 1 \<and>
                   (\<exists>r. lines sd = [r] \<and> active r \<and> parent r = None \<and> steps r = 1)) ss"
        "st1 = st\<lparr>rngSeed := rngSeed st + 6 * int (nat (seedCount config)) * mulberry32_incr,
                  activeLineCount := activeLineCount st + int (nat (seedCount config))\<rparr>"
    by auto
  have l1: "list_all (\<lambda>sd. count_active [sd] = 1) ss"
    using sh(2) unfolding list_all_iff by blast
  have cnt: "count_active ss = nat (seedCount config)"
    using count_active_ones [OF l1] sh(1) by simp
  have l2: "list_all (\<lambda>sd. lines_wf (lines sd)) ss"
    using sh(2) unfolding list_all_iff by blast
  have l3: "list_all (\<lambda>sd. \<exists>r. lines sd = [r] \<and> active r \<and> parent r = None \<and> steps r = 1) ss"
    using sh(2) unfolding list_all_iff by blast
  have seeds': "seeds st' = Some ss" using st' by simp
  have "activeLineCount st' = activeLineCount st + seedCount config \<and>
      rngSeed st' = rngSeed st + 6 * seedCount config * mulberry32_incr"
    using c(1) sh(3) st' by simp
  with c(1) seeds' sh(1) cnt l2 l3 show ?thesis by blast
qed

lemma line_tick_spec_geom:
  assumes "line_tick_spec j l l' new" and "active l" and "line_geom_ok l"
  shows "line_geom_ok l'"
proof -
  have s: "seg_len l = steps l" using assms(2) by (simp add: seg_len_def)
  show ?thesis
  proof (cases "active l' \<or> expired l'")
    case True
    then have "seg_len l' = Suc (steps l) \<and> p1 l' = advance (angle l) (p1 l)"
      using assms(1) by (auto simp: line_tick_spec_def seg_len_def split: if_splits)
    then show ?thesis
      using assms(1,3) s by (auto simp: line_geom_ok_def line_tick_spec_def advance_def algebra_simps)
  next
    case False
    then have "seg_len l' = steps l \<and> p1 l' = p1 l"
      using assms(1) by (auto simp: line_tick_spec_def seg_len_def split: if_splits)
    then show ?thesis
      using assms(1,3) s by (simp add: line_geom_ok_def line_tick_spec_def)
  qed
qed

lemma child_geom: "child_spec j l ch \<Longrightarrow> line_geom_ok ch"
  by (simp add: child_spec_def line_geom_ok_def seg_len_def advance_def)

lemma seed_tick_spec_old:
  assumes "seed_tick_spec ls ls'" and "j < length ls"
  shows "length ls \<le> length ls' \<and>
    (if active (ls ! j) then \<exists>new. line_tick_spec j (ls ! j) (ls' ! j) new else ls' ! j = ls ! j)"
proof -
  from assms(1) obtain ls1 news where
    len: "length ls1 = length ls" "length news = length ls" and
    ls': "ls' = ls1 @ concat news" and
    sp: "\<forall>j<length ls. if active (ls ! j) then line_tick_spec j (ls ! j) (ls1 ! j) (news ! j)
                      else ls1 ! j = ls ! j \<and> news ! j = []"
    by (auto simp: seed_tick_spec_def)
  have eq: "ls' ! j = ls1 ! j" using assms(2) len by (simp add: ls' nth_append)
  show ?thesis
  proof (cases "active (ls ! j)")
    case True
    with sp assms(2) have "line_tick_spec j (ls ! j) (ls1 ! j) (news ! j)" by simp
    with True eq len show ?thesis by (simp add: ls') blast
  next
    case False
    with sp assms(2) eq len show ?thesis by (simp add: ls')
  qed
qed

lemma seed_tick_spec_new:
  assumes "seed_tick_spec ls ls'" and "length ls \<le> k" and "k < length ls'"
  shows "\<exists>j<length ls. active (ls ! j) \<and> child_spec j (ls' ! j) (ls' ! k)"
proof -
  from assms(1) obtain ls1 news where
    len: "length ls1 = length ls" "length news = length ls" and
    ls': "ls' = ls1 @ concat news" and
    sp: "\<forall>j<length ls. if active (ls ! j) then line_tick_spec j (ls ! j) (ls1 ! j) (news ! j)
                      else ls1 ! j = ls ! j \<and> news ! j = []"
    by (auto simp: seed_tick_spec_def)
  have "concat news ! (k - length ls) \<in> set (concat news)"
    using assms(2,3) len by (intro nth_mem) (simp add: ls')
  then have "ls' ! k \<in> set (concat news)"
    using assms(2) len by (simp add: ls' nth_append)
  then obtain xs where "xs \<in> set news" and xs: "ls' ! k \<in> set xs" by auto
  then obtain j where j: "j < length ls" and "news ! j = xs"
    using len by (auto simp: in_set_conv_nth)
  with xs have x: "ls' ! k \<in> set (news ! j)" by simp
  have "active (ls ! j)"
  proof (rule ccontr)
    assume "\<not> active (ls ! j)"
    with sp j have "news ! j = []" by simp
    with x show False by simp
  qed
  with sp j have "line_tick_spec j (ls ! j) (ls1 ! j) (news ! j)" by simp
  with x have "child_spec j (ls1 ! j) (ls' ! k)"
    by (auto simp: line_tick_spec_def split: if_splits)
  moreover have "ls' ! j = ls1 ! j" using j len by (simp add: ls' nth_append)
  ultimately show ?thesis using j \<open>active (ls ! j)\<close> by auto
qed

lemma seed_tick_spec_frame:
  assumes "seed_tick_spec ls ls'" and "j < length ls"
  shows "parent (ls' ! j) = parent (ls ! j) \<and> generation (ls' ! j) = generation (ls ! j) \<and>
    (generation (ls ! j) = 0 \<longrightarrow> expired (ls' ! j) = expired (ls ! j)) \<and>
    (line_geom_ok (ls ! j) \<longrightarrow> line_geom_ok (ls' ! j))"
proof (cases "active (ls ! j)")
  case True
  with seed_tick_spec_old [OF assms] obtain new where lt: "line_tick_spec j (ls ! j) (ls' ! j) new"
    by auto
  have "line_geom_ok (ls ! j) \<longrightarrow> line_geom_ok (ls' ! j)"
    using line_tick_spec_geom [OF lt True] by blast
  with lt show ?thesis by (simp add: line_tick_spec_def)
next
  case False
  with seed_tick_spec_old [OF assms] show ?thesis by simp
qed

lemma seed_tick_spec_wf:
  assumes wf: "lines_wf ls" and st: "seed_tick_spec ls ls'"
  shows "lines_wf ls'"
proof -
  have ne: "ls \<noteq> []" and len: "length ls \<le> length ls'"
    using wf seed_tick_spec_old [OF st, of 0] by (auto simp: lines_wf_def)
  have root: "parent (ls' ! 0) = None \<and> generation (ls' ! 0) = 0 \<and> \<not> expired (ls' ! 0)"
    using seed_tick_spec_frame [OF st, of 0] wf ne by (simp add: lines_wf_def)
  have par: "case parent (ls' ! j) of None \<Rightarrow> False
               | Some k \<Rightarrow> k < j \<and> generation (ls' ! j) = Suc (generation (ls' ! k))"
    if j: "j < length ls'" "0 < j" for j
  proof (cases "j < length ls")
    case True
    with wf j obtain k where k: "parent (ls ! j) = Some k" "k < j"
        "generation (ls ! j) = Suc (generation (ls ! k))"
      by (auto simp: lines_wf_def split: option.splits)
    with True show ?thesis
      using seed_tick_spec_frame [OF st, of j] seed_tick_spec_frame [OF st, of k] by simp
  next
    case False
    with seed_tick_spec_new [OF st _ j(1)] obtain k where
      "k < length ls" "child_spec k (ls' ! k) (ls' ! j)"
      by auto
    with False show ?thesis by (simp add: child_spec_def)
  qed
  have geom: "line_geom_ok (ls' ! j)" if j: "j < length ls'" for j
  proof (cases "j < length ls")
    case True
    with wf have "line_geom_ok (ls ! j)" by (simp add: lines_wf_def list_all_length)
    with True show ?thesis using seed_tick_spec_frame [OF st True] by simp
  next
    case False
    with seed_tick_spec_new [OF st _ j] obtain k where "child_spec k (ls' ! k) (ls' ! j)"
      by auto
    then show ?thesis by (rule child_geom)
  qed
  show ?thesis
    using ne len root par geom by (auto simp: lines_wf_def list_all_length)
qed

lemma forest_tick_spec_wf:
  "forest_tick_spec ss ss' \<Longrightarrow> list_all (\<lambda>sd. lines_wf (lines sd)) ss \<Longrightarrow>
   list_all (\<lambda>sd. lines_wf (lines sd)) ss'"
  by (auto simp: forest_tick_spec_def list_all2_conv_all_nth list_all_length
           intro: seed_tick_spec_wf)

lemma model_grow_tick:
  assumes "seeds st = Some ss" and "model_grow config cv st = Inr st'"
  shows "\<exists>ss'. seeds st' = Some ss' \<and> forest_tick_spec ss ss' \<and>
    rngSeed st' = rngSeed st + (2 * int (count_active ss)
                                + 4 * (int (total_lines ss') - int (total_lines ss))) * mulberry32_incr \<and>
    activeLineCount st' - int (count_active ss') = activeLineCount st - int (count_active ss)"
proof -
  from fold_seed_grow [OF assms(1) order.refl, of config cv] obtain ss' where
    part: "forest_part_spec ss (length ss) ss'" and
    F: "fold (seed_grow config cv) [0..<length ss] st =
      \<lparr>rngSeed = rngSeed st + (2 * int (count_active (take (length ss) ss))
                            + 4 * (int (total_lines ss') - int (total_lines ss))) * mulberry32_incr,
       activeLineCount = activeLineCount st + int (count_active ss') - int (count_active ss),
       seeds = Some ss'\<rparr>"
    by blast
  have spec: "forest_tick_spec ss ss'"
    using part by (auto simp: forest_part_spec_def forest_tick_spec_def list_all2_conv_all_nth)
  have "st' = fold (seed_grow config cv) [0..<length ss] st"
    using assms by (simp add: model_grow_def)
  with F spec show ?thesis by (intro exI [of _ ss']) simp
qed

lemma model_grow_inv:
  assumes inv: "model_inv st" and g: "model_grow config cv st = Inr st'"
  shows "model_inv st'"
proof -
  obtain ss where ss: "seeds st = Some ss"
    using g by (cases "seeds st") (auto simp: model_grow_def)
  from model_grow_tick [OF ss g] obtain ss' where
    "seeds st' = Some ss'" "forest_tick_spec ss ss'"
    "activeLineCount st' - int (count_active ss') = activeLineCount st - int (count_active ss)"
    by blast
  with inv ss show ?thesis
    by (auto simp: model_inv_def intro: forest_tick_spec_wf)
qed

lemma reachable_model_inv: "reachable config cv st \<Longrightarrow> model_inv st"
proof (induction rule: reachable.induct)
  case (built s)
  then show ?case by (simp add: model_inv_def buildModel_def)
next
  case (generated s st)
  from generate_shape [OF generated] show ?case
    by (auto simp: model_inv_def buildModel_def)
next
  case (grown st st')
  then show ?case using model_grow_inv by blast
qed


lemma forest_tick_spec_nth:
  "forest_tick_spec ss ss' \<Longrightarrow> i < length ss \<Longrightarrow>
   length ss' = length ss \<and> seed_angle (ss' ! i) = seed_angle (ss ! i) \<and>
   seed_tick_spec (lines (ss ! i)) (lines (ss' ! i))"
  by (simp add: forest_tick_spec_def list_all2_conv_all_nth)

lemma count_active_pos:
  "0 < count_active ss \<longleftrightarrow> (\<exists>sd\<in>set ss. \<exists>l\<in>set (lines sd). active l)"
proof (induction ss)
  case Nil
  then show ?case by (simp add: count_active_def)
next
  case (Cons sd ss)
  have "count_active (sd # ss) = length (filter active (lines sd)) + count_active ss"
    by (simp add: count_active_def)
  with Cons show ?case by (auto simp: filter_empty_conv length_greater_0_conv [symmetric] simp del: length_greater_0_conv)
qed

lemma reachable_seeds:
  "reachable config cv st \<Longrightarrow> seeds st = Some ss \<Longrightarrow> sd \<in> set ss \<Longrightarrow> lines_wf (lines sd)"
  using reachable_model_inv [of config cv st] by (auto simp: model_inv_def list_all_iff)

lemma model_grow_projr:
  "seeds st = Some ss \<Longrightarrow> model_grow config cv st = Inr (projr (model_grow config cv st))"
  by (simp add: model_grow_def)

lemma seed_tick_spec_idle:
  assumes "\<forall>l\<in>set ls. \<not> active l" and "seed_tick_spec ls ls'"
  shows "ls' = ls"
proof -
  from assms(2) obtain ls1 news where l: "length ls1 = length ls" "length news = length ls"
    and eq: "ls' = ls1 @ concat news"
    and j: "\<forall>j<length ls. if active (ls ! j) then line_tick_spec j (ls ! j) (ls1 ! j) (news ! j)
                          else ls1 ! j = ls ! j \<and> news ! j = []"
    unfolding seed_tick_spec_def by blast
  have "\<forall>j<length ls. ls1 ! j = ls ! j \<and> news ! j = []"
  proof (intro allI impI)
    fix k assume k: "k < length ls"
    then have "\<not> active (ls ! k)" using assms(1) by simp
    with j k show "ls1 ! k = ls ! k \<and> news ! k = []" by auto
  qed
  then have "ls1 = ls" "concat news = []"
    using l by (auto intro: nth_equalityI simp: in_set_conv_nth)
  with eq show ?thesis by simp
qed

lemma forest_tick_spec_idle:
  assumes "count_active ss = 0" and "forest_tick_spec ss ss'"
  shows "ss' = ss"
proof -
  have idle: "\<forall>sd\<in>set ss. \<forall>l\<in>set (lines sd). \<not> active l"
    using assms(1) count_active_pos [of ss] by auto
  have l: "length ss' = length ss" using assms(2) by (simp add: forest_tick_spec_def list_all2_lengthD)
  have "ss' ! i = ss ! i" if i: "i < length ss" for i
  proof -
    from assms(2) i have sp: "seed_angle (ss' ! i) = seed_angle (ss ! i)"
      "seed_tick_spec (lines (ss ! i)) (lines (ss' ! i))"
      by (simp_all add: forest_tick_spec_def list_all2_conv_all_nth)
    have "\<forall>l\<in>set (lines (ss ! i)). \<not> active l" using idle i nth_mem by blast
    from seed_tick_spec_idle [OF this sp(2)] sp(1) show ?thesis by (intro seed.equality) simp_all
  qed
  with l show ?thesis by (simp add: nth_equalityI)
qed

lemma line_geom_dist:
  assumes "line_geom_ok l"
  shows "1 \<le> seg_len l \<and>
    px (p1 l) = px (p0 l) + real (seg_len l) * sin (angle l) \<and>
    py (p1 l) = py (p0 l) + real (seg_len l) * cos (angle l) \<and>
    (px (p1 l) - px (p0 l))\<^sup>2 + (py (p1 l) - py (p0 l))\<^sup>2 = (real (seg_len l))\<^sup>2"
proof -
  have g: "1 \<le> seg_len l"
      "px (p1 l) - px (p0 l) = real (seg_len l) * sin (angle l)"
      "py (p1 l) - py (p0 l) = real (seg_len l) * cos (angle l)"
    using assms by (simp_all add: line_geom_ok_def growthRate_def)
  have "(real (seg_len l) * sin (angle l))\<^sup>2 + (real (seg_len l) * cos (angle l))\<^sup>2 =
      (real (seg_len l))\<^sup>2 * ((sin (angle l))\<^sup>2 + (cos (angle l))\<^sup>2)"
    by (simp only: power_mult_distrib distrib_left)
  also have "\<dots> = (real (seg_len l))\<^sup>2" by simp
  finally show ?thesis using g by simp
qed

subsection \<open>The forest as the detector sees it\<close>

lemma line_view_sel [simp]:
  "p0 (line_view i j l) = p0 l" "p1 (line_view i j l) = p1 l" "cid (line_view i j l) = (i, j)"
  "cparent (line_view i j l) = map_option (Pair i) (parent l)"
  by (simp_all add: line_view_def)

lemma linesIntersect_view:
  "linesIntersect (line_view i j l) (line_view i' j' l') = linesIntersect l l'"
  unfolding linesIntersect_def line_view_sel ..

lemma lineOffscreen_view: "lineOffscreen vis (line_view i j l) = lineOffscreen vis l"
  by (simp add: lineOffscreen_def)

lemma collision_exempt_view:
  "collision_exempt (line_view i j l) (line_view i' j' l') \<longleftrightarrow>
     (i', j') = (i, j) \<or> (i' = i \<and> parent l = Some j') \<or> (i' = i \<and> parent l' = Some j)"
  by (auto simp: collision_exempt_def)

lemma forEachLineUntilTrue_flat:
  "forEachLineUntilTrue (Some ss) v s =
     some_st v s (concat (map (\<lambda>(i, sd). map (\<lambda>(j, l). line_view i j l) (enumerate 0 (lines sd)))
                              (enumerate 0 ss)))"
proof -
  have inner: "some_st (\<lambda>s (j, l). v s (line_view i j l)) s0 xs =
      some_st v s0 (map (\<lambda>(j, l). line_view i j l) xs)" for i s0 xs
  proof -
    have "(\<lambda>s (j, l). v s (line_view i j l)) = (\<lambda>s x. v s ((\<lambda>(j, l). line_view i j l) x))"
      by (simp add: fun_eq_iff split: prod.split)
    then show ?thesis by (simp add: some_st_map)
  qed
  have outer: "(\<lambda>s (i, sd). some_st v s (map (\<lambda>(j, l). line_view i j l) (enumerate 0 (lines sd)))) =
      (\<lambda>s ys. some_st v s ((\<lambda>(i, sd). map (\<lambda>(j, l). line_view i j l) (enumerate 0 (lines sd))) ys))"
    by (simp add: fun_eq_iff split: prod.split)
  show ?thesis
    unfolding forEachLineUntilTrue_def option.case inner outer
    using some_st_nested [of v "\<lambda>(i, sd). map (\<lambda>(j, l). line_view i j l) (enumerate 0 (lines sd))" s
        "enumerate 0 ss"]
    by simp
qed

lemma in_forest_views:
  "x \<in> set (concat (map (\<lambda>(i, sd). map (\<lambda>(j, l). line_view i j l) (enumerate 0 (lines sd)))
                         (enumerate 0 ss))) \<longleftrightarrow>
   (\<exists>i<length ss. \<exists>j<length (lines (ss ! i)). x = line_view i j (lines (ss ! i) ! j))"
proof
  assume "x \<in> set (concat (map (\<lambda>(i, sd). map (\<lambda>(j, l). line_view i j l) (enumerate 0 (lines sd)))
                              (enumerate 0 ss)))"
  then show "\<exists>i<length ss. \<exists>j<length (lines (ss ! i)). x = line_view i j (lines (ss ! i) ! j)"
    by (auto simp: in_set_enumerate_eq) blast
next
  assume "\<exists>i<length ss. \<exists>j<length (lines (ss ! i)). x = line_view i j (lines (ss ! i) ! j)"
  then obtain i j where ij: "i < length ss" "j < length (lines (ss ! i))"
    and x: "x = line_view i j (lines (ss ! i) ! j)" by blast
  have "(i, ss ! i) \<in> set (enumerate 0 ss)" "(j, lines (ss ! i) ! j) \<in> set (enumerate 0 (lines (ss ! i)))"
    using ij by (simp_all add: in_set_enumerate_eq)
  then show "x \<in> set (concat (map (\<lambda>(i, sd). map (\<lambda>(j, l). line_view i j l) (enumerate 0 (lines sd)))
                              (enumerate 0 ss)))"
    unfolding x by force
qed

subsection \<open>Properties of the growth model\<close>

text \<open>
  C1. The counter \<^verbatim>\<open>activeLineCount\<close> equals the number of active lines of the
  forest in every state a run reaches, so \<^verbatim>\<open>isActive()\<close>, the run's only
  termination signal, holds exactly when some line is still active.
\<close>

theorem isActive_iff_active_line:
  assumes "reachable config cv st"
  shows "activeLineCount st = int (count_active (case seeds st of None \<Rightarrow> [] | Some ss \<Rightarrow> ss)) \<and>
    (isActive st \<longleftrightarrow>
      (\<exists>sd\<in>set (case seeds st of None \<Rightarrow> [] | Some ss \<Rightarrow> ss). \<exists>l\<in>set (lines sd). active l))"
proof -
  have inv: "model_inv st" using assms by (rule reachable_model_inv)
  let ?ss = "case seeds st of None \<Rightarrow> [] | Some ss \<Rightarrow> ss"
  have cnt: "activeLineCount st = int (count_active ?ss)"
    using inv by (cases "seeds st") (simp_all add: model_inv_def count_active_def)
  with count_active_pos [of ?ss] show ?thesis by (simp add: isActive_def)
qed

text \<open>
  C2. A tick implements its abstract specification: \<^verbatim>\<open>grow()\<close> on a generated
  model returns a model whose forest is related to the old one by
  \<open>forest_tick_spec\<close> (every active line takes its step, inactive lines are kept, the
  only new lines are children appended in the order of their parents), whose counter
  moves by the change in active lines, and whose generator advanced by two draws per
  line active at the start and four per child.
\<close>

theorem model_grow_refines:
  assumes ss: "seeds st = Some ss"
  shows "\<exists>ss'. forest_tick_spec ss ss' \<and>
    model_grow config cv st =
      Inr \<lparr>rngSeed = rngSeed st + (2 * int (count_active ss)
                                + 4 * (int (total_lines ss') - int (total_lines ss))) * mulberry32_incr,
           activeLineCount = activeLineCount st + int (count_active ss') - int (count_active ss),
           seeds = Some ss'\<rparr>"
proof -
  from fold_seed_grow [OF ss order.refl, of config cv] obtain ss' where
    part: "forest_part_spec ss (length ss) ss'" and
    F: "fold (seed_grow config cv) [0..<length ss] st =
      \<lparr>rngSeed = rngSeed st + (2 * int (count_active (take (length ss) ss))
                            + 4 * (int (total_lines ss') - int (total_lines ss))) * mulberry32_incr,
       activeLineCount = activeLineCount st + int (count_active ss') - int (count_active ss),
       seeds = Some ss'\<rparr>"
    by blast
  have "forest_tick_spec ss ss'"
    using part by (auto simp: forest_part_spec_def forest_tick_spec_def list_all2_conv_all_nth)
  with F show ?thesis by (simp add: model_grow_def ss)
qed

text \<open>
  C3. In every reachable state each seed's line array starts with its root (no parent,
  generation 0), and every other line's parent is an earlier line of the same seed, one
  generation up: the \<^verbatim>\<open>parent\<close> links form a tree rooted at the first line.
\<close>

theorem reachable_forest_structure:
  assumes "reachable config cv st" and "seeds st = Some ss" and "sd \<in> set ss"
  shows "lines sd \<noteq> [] \<and> parent (lines sd ! 0) = None \<and> generation (lines sd ! 0) = 0 \<and>
    (\<forall>j<length (lines sd). 0 < j \<longrightarrow>
       (\<exists>k<j. parent (lines sd ! j) = Some k \<and>
               generation (lines sd ! j) = Suc (generation (lines sd ! k))))"
proof -
  have wf: "lines_wf (lines sd)" using reachable_seeds [OF assms] .
  then show ?thesis
    by (auto simp: lines_wf_def split: option.splits)
qed

text \<open>
  C4. In every reachable state every line is the segment from its origin along its angle
  over \<open>seg_len\<close> unit steps, at least one: its step count, or one less if it stopped on
  a collision and was clipped. In particular no line is ever of length zero.
\<close>

theorem reachable_line_geometry:
  assumes "reachable config cv st" and "seeds st = Some ss" and "sd \<in> set ss"
    and "l \<in> set (lines sd)"
  shows "1 \<le> seg_len l \<and>
    px (p1 l) = px (p0 l) + real (seg_len l) * sin (angle l) \<and>
    py (p1 l) = py (p0 l) + real (seg_len l) * cos (angle l) \<and>
    (px (p1 l) - px (p0 l))\<^sup>2 + (py (p1 l) - py (p0 l))\<^sup>2 = (real (seg_len l))\<^sup>2"
proof -
  have "line_geom_ok l"
    using reachable_seeds [OF assms(1-3)] assms(4) by (simp add: lines_wf_def list_all_iff)
  then show ?thesis by (rule line_geom_dist)
qed

text \<open>
  C7. Terminal states are final: a tick leaves a line that was inactive at its start
  exactly as it was (the line is never grown, moved or reactivated again).
\<close>

theorem tick_inactive_frozen:
  assumes "seeds st = Some ss" and "model_grow config cv st = Inr st'"
    and "i < length ss" and "j < length (lines (ss ! i))" and "\<not> active (lines (ss ! i) ! j)"
  shows "lines (the (seeds st') ! i) ! j = lines (ss ! i) ! j"
proof -
  from model_grow_tick [OF assms(1,2)] obtain ss' where
    "seeds st' = Some ss'" "forest_tick_spec ss ss'" by blast
  with forest_tick_spec_nth assms(3) have "seed_tick_spec (lines (ss ! i)) (lines (the (seeds st') ! i))"
    by auto
  from seed_tick_spec_old [OF this assms(4)] assms(5) show ?thesis by simp
qed

text \<open>
  C6. Every line active at the start of a tick takes exactly one step in it: its step
  count goes up by one, its origin, angle, generation, parent and tag are unchanged, and
  its tip is one unit further along its angle, unless it stopped on a collision, in which
  case the clip puts the tip back where it was.
\<close>

theorem tick_active_step:
  assumes "seeds st = Some ss" and "model_grow config cv st = Inr st'"
    and "i < length ss" and "j < length (lines (ss ! i))" and "active (lines (ss ! i) ! j)"
  shows "steps (lines (the (seeds st') ! i) ! j) = Suc (steps (lines (ss ! i) ! j)) \<and>
    p0 (lines (the (seeds st') ! i) ! j) = p0 (lines (ss ! i) ! j) \<and>
    angle (lines (the (seeds st') ! i) ! j) = angle (lines (ss ! i) ! j) \<and>
    generation (lines (the (seeds st') ! i) ! j) = generation (lines (ss ! i) ! j) \<and>
    parent (lines (the (seeds st') ! i) ! j) = parent (lines (ss ! i) ! j) \<and>
    rnd_tag (lines (the (seeds st') ! i) ! j) = rnd_tag (lines (ss ! i) ! j) \<and>
    p1 (lines (the (seeds st') ! i) ! j) =
      (if \<not> active (lines (the (seeds st') ! i) ! j) \<and> \<not> expired (lines (the (seeds st') ! i) ! j)
       then p1 (lines (ss ! i) ! j)
       else advance (angle (lines (ss ! i) ! j)) (p1 (lines (ss ! i) ! j)))"
proof -
  from model_grow_tick [OF assms(1,2)] obtain ss' where
    "seeds st' = Some ss'" "forest_tick_spec ss ss'" by blast
  with forest_tick_spec_nth assms(3) have "seed_tick_spec (lines (ss ! i)) (lines (the (seeds st') ! i))"
    by auto
  from seed_tick_spec_old [OF this assms(4)] assms(5) obtain new where
    "line_tick_spec j (lines (ss ! i) ! j) (lines (the (seeds st') ! i) ! j) new"
    by auto
  then show ?thesis by (auto simp: line_tick_spec_def split: if_splits)
qed

text \<open>
  C8. The lines a tick appends to a seed are children of lines that were active at its
  start: each starts at its parent's tip, one generation deeper, turned a quarter turn,
  active, and with exactly one step, the one \<^verbatim>\<open>buildLine\<close> gave it. So a child is
  not grown by the tick that created it: the snapshot of active lines is taken before
  the tick's first mutation.
\<close>

theorem tick_children_fresh:
  assumes "seeds st = Some ss" and "model_grow config cv st = Inr st'"
    and "i < length ss" and "length (lines (ss ! i)) \<le> k"
    and "k < length (lines (the (seeds st') ! i))"
  shows "\<exists>j<length (lines (ss ! i)). active (lines (ss ! i) ! j) \<and>
    parent (lines (the (seeds st') ! i) ! k) = Some j \<and>
    generation (lines (the (seeds st') ! i) ! k) = Suc (generation (lines (the (seeds st') ! i) ! j)) \<and>
    p0 (lines (the (seeds st') ! i) ! k) = p1 (lines (the (seeds st') ! i) ! j) \<and>
    active (lines (the (seeds st') ! i) ! k) \<and> steps (lines (the (seeds st') ! i) ! k) = 1 \<and>
    (angle (lines (the (seeds st') ! i) ! k) = angle (lines (the (seeds st') ! i) ! j) + pi / 2 \<or>
     angle (lines (the (seeds st') ! i) ! k) = angle (lines (the (seeds st') ! i) ! j) - pi / 2)"
proof -
  from model_grow_tick [OF assms(1,2)] obtain ss' where
    "seeds st' = Some ss'" "forest_tick_spec ss ss'" by blast
  with forest_tick_spec_nth assms(3) have "seed_tick_spec (lines (ss ! i)) (lines (the (seeds st') ! i))"
    by auto
  from seed_tick_spec_new [OF this assms(4,5)] show ?thesis
    by (auto simp: child_spec_def)
qed

text \<open>
  C9. A root line (generation 0) never expires, since the expiry threshold is the
  generation times \<^verbatim>\<open>expiryThreshold\<close>; in every reachable state a stopped root
  therefore stopped on a collision, and it was clipped back one step.
\<close>

theorem root_stops_only_by_collision:
  assumes "reachable config cv st" and "seeds st = Some ss" and "sd \<in> set ss"
    and "l \<in> set (lines sd)" and "generation l = 0"
  shows "\<not> expired l \<and> (\<not> active l \<longrightarrow> seg_len l = steps l - 1)"
proof -
  have wf: "lines_wf (lines sd)" using reachable_seeds [OF assms(1-3)] .
  from assms(4) obtain j where j: "j < length (lines sd)" "lines sd ! j = l"
    by (auto simp: in_set_conv_nth)
  have "j = 0"
  proof (rule ccontr)
    assume "j \<noteq> 0"
    with wf j have "\<exists>k. generation (lines sd ! j) = Suc k"
      by (auto simp: lines_wf_def split: option.splits)
    with j assms(5) show False by simp
  qed
  with wf j show ?thesis by (simp add: lines_wf_def seg_len_def)
qed

text \<open>
  C10. \<^verbatim>\<open>generate()\<close>: with \<^verbatim>\<open>seedCount\<close> an array length it builds that many
  seeds, each holding one active root line with one step, adds \<^verbatim>\<open>seedCount\<close> to
  the counter and makes six draws per seed (angle, x, y, tag, split, expiry); with a
  negative \<^verbatim>\<open>seedCount\<close> (or one of \<open>2\<^sup>3\<^sup>2\<close> or more) \<^verbatim>\<open>Array(n)\<close> throws a
  \<open>RangeError\<close>.
\<close>

theorem generate_spec:
  "(seedCount config < 0 \<or> 2 ^ 32 \<le> seedCount config \<longrightarrow> generate config cv st = Inl RangeError) \<and>
   (0 \<le> seedCount config \<and> seedCount config < 2 ^ 32 \<longrightarrow>
      (\<exists>st' ss. generate config cv st = Inr st' \<and> seeds st' = Some ss \<and>
         length ss = nat (seedCount config) \<and>
         (\<forall>sd\<in>set ss. \<exists>r. lines sd = [r] \<and> active r \<and> parent r = None \<and> steps r = 1) \<and>
         activeLineCount st' = activeLineCount st + seedCount config \<and>
         rngSeed st' = rngSeed st + 6 * seedCount config * mulberry32_incr))"
proof (intro conjI impI)
  assume "seedCount config < 0 \<or> 2 ^ 32 \<le> seedCount config"
  then show "generate config cv st = Inl RangeError" by (simp add: generate_def)
next
  assume c: "0 \<le> seedCount config \<and> seedCount config < 2 ^ 32"
  obtain ss st1 where "build_seeds config cv (nat (seedCount config)) st = (ss, st1)" by fastforce
  with c have g: "generate config cv st = Inr (st1\<lparr>seeds := Some ss\<rparr>)"
    by (simp add: generate_def)
  from generate_shape [OF g] show "\<exists>st' ss. generate config cv st = Inr st' \<and> seeds st' = Some ss \<and>
         length ss = nat (seedCount config) \<and>
         (\<forall>sd\<in>set ss. \<exists>r. lines sd = [r] \<and> active r \<and> parent r = None \<and> steps r = 1) \<and>
         activeLineCount st' = activeLineCount st + seedCount config \<and>
         rngSeed st' = rngSeed st + 6 * seedCount config * mulberry32_incr"
    using g by (auto simp: list_all_iff)
qed

lemma bex_forest_views:
  "(\<exists>x\<in>set (concat (map (\<lambda>(i, sd). map (\<lambda>(j, l). line_view i j l) (enumerate 0 (lines sd)))
                         (enumerate 0 ss))). P x) \<longleftrightarrow>
   (\<exists>i<length ss. \<exists>j<length (lines (ss ! i)). P (line_view i j (lines (ss ! i) ! j)))"
  unfolding Bex_def in_forest_views by blast

text \<open>
  C5. What the detector reports for a line of the model, when it is handed the
  model's own \<^verbatim>\<open>forEachLineUntilTrue\<close>: a collision exactly when the tip is off
  screen or some line of any seed, active or not, intersects it, other than the line
  itself, its parent and its own children. Parent and children are excluded even when
  they overlap it, as they always touch it at their shared endpoint.
\<close>

theorem collision_check_forest:
  "checkForCollisions (isVisible cv) (line_view i j l) (forEachLineUntilTrue (Some ss)) \<longleftrightarrow>
   lineOffscreen (isVisible cv) l \<or>
   (\<exists>i'<length ss. \<exists>j'<length (lines (ss ! i')).
      (i', j') \<noteq> (i, j) \<and> \<not> (i' = i \<and> parent l = Some j') \<and>
      \<not> (i' = i \<and> parent (lines (ss ! i') ! j') = Some j) \<and>
      linesIntersect l (lines (ss ! i') ! j'))"
  unfolding checkForCollisions_def forEachLineUntilTrue_flat collision_scan_found
    lineOffscreen_view bex_forest_views collision_exempt_view linesIntersect_view
  by auto

text \<open>
  A finished model is a fixed point: once \<^verbatim>\<open>isActive()\<close> is false, a further
  \<^verbatim>\<open>grow()\<close> changes nothing, neither the forest nor the counter nor the generator.
  So extra frames after completion (a \<^verbatim>\<open>resume()\<close>, or a second loop) are harmless
  to the model.
\<close>

lemma model_grow_idle:
  assumes "model_inv st" and "seeds st = Some ss" and "\<not> isActive st"
  shows "model_grow config cv st = Inr st"
proof -
  have c: "count_active ss = 0"
    using assms by (simp add: model_inv_def isActive_def)
  have g: "model_grow config cv st = Inr (projr (model_grow config cv st))"
    using assms(2) by (rule model_grow_projr)
  from model_grow_tick [OF assms(2) g] obtain ss' where
    s: "seeds (projr (model_grow config cv st)) = Some ss'" "forest_tick_spec ss ss'" and
    r: "rngSeed (projr (model_grow config cv st)) = rngSeed st + (2 * int (count_active ss)
           + 4 * (int (total_lines ss') - int (total_lines ss))) * mulberry32_incr" and
    a: "activeLineCount (projr (model_grow config cv st)) - int (count_active ss') =
        activeLineCount st - int (count_active ss)"
    by blast
  have "ss' = ss" using forest_tick_spec_idle [OF c s(2)] .
  with s r a c assms(2) have "projr (model_grow config cv st) = st"
    by (intro model.equality) simp_all
  with g show ?thesis by simp
qed

end
