(* ===== verification/Lifetime.thy ===== *)
theory Lifetime
  imports Model
begin

text \<open>
  How long a line can grow. A line that is still active after a tick passed the
  detector's off-screen test, and a child starts at such a tip. The roots start inside the
  canvas. So on a bounded canvas both ends of a line that has taken a step after its
  creation are visible. Its length is its step count (\<open>reachable_line_geometry\<close>), so
  the step count is bounded by the canvas diagonal. Since every tick adds one step to an
  active line (\<open>tick_active_step\<close>), every line stops within that many ticks of its
  creation. The bound on the whole run, which also needs the depth bound that expiry
  gives, is in \<open>Completion\<close>. This theory also holds the generic per-line invariants
  \<open>lines_all\<close> and \<open>reachable_lines_all\<close>.
\<close>

text \<open>
  What the lifetime bound needs of the canvas, which is not part of the repository: the
  area \<^verbatim>\<open>buildSeed\<close> draws root origins from (\<open>[0, width) \<times> [0, height)\<close>) is
  visible, and every visible point lies in the closed rectangle.
\<close>

definition canvas_ok :: "canvas \<Rightarrow> bool" where
  "canvas_ok cv \<longleftrightarrow>
     (\<forall>u v. 0 \<le> u \<and> u < 1 \<and> 0 \<le> v \<and> v < 1 \<longrightarrow> isVisible cv (u * width cv) (v * height cv)) \<and>
     (\<forall>x y. isVisible cv x y \<longrightarrow> 0 \<le> x \<and> x \<le> width cv \<and> 0 \<le> y \<and> y \<le> height cv)"

text \<open>
  The invariant: every origin is visible, and so is the tip of every active line that has
  taken a step since its creation (its last collision check passed).
\<close>

definition line_vis :: "canvas \<Rightarrow> line \<Rightarrow> bool" where
  "line_vis cv l \<longleftrightarrow> isVisible cv (px (p0 l)) (py (p0 l)) \<and>
     (active l \<and> 2 \<le> steps l \<longrightarrow> isVisible cv (px (p1 l)) (py (p1 l)))"

definition lines_all :: "(line \<Rightarrow> bool) \<Rightarrow> model \<Rightarrow> bool" where
  "lines_all P st \<longleftrightarrow> (case seeds st of None \<Rightarrow> True
                       | Some ss \<Rightarrow> list_all (\<lambda>sd. list_all P (lines sd)) ss)"

abbreviation vis_inv :: "canvas \<Rightarrow> model \<Rightarrow> bool" where
  "vis_inv cv \<equiv> lines_all (line_vis cv)"

lemma lines_all_seeds: "seeds st' = seeds st \<Longrightarrow> lines_all P st' = lines_all P st"
  by (simp add: lines_all_def)

lemma lines_all_member:
  "lines_all P st \<Longrightarrow> seeds st = Some ss \<Longrightarrow> sd \<in> set ss \<Longrightarrow> l \<in> set (lines sd) \<Longrightarrow> P l"
  by (simp add: lines_all_def list_all_iff)

lemma list_all_lines_update:
  assumes "list_all (\<lambda>sd. list_all P (lines sd)) ss"
    and "i < length ss \<Longrightarrow> j < length (lines (ss ! i)) \<Longrightarrow> P L"
  shows "list_all (\<lambda>sd. list_all P (lines sd)) (ss[i := (ss ! i)\<lparr>lines := (lines (ss ! i))[j := L]\<rparr>])"
proof (cases "i < length ss \<and> j < length (lines (ss ! i))")
  case True
  with assms have "list_all P ((lines (ss ! i))[j := L])"
    by (auto simp: list_all_length nth_list_update)
  with assms(1) True show ?thesis
    by (auto simp: list_all_length nth_list_update)
next
  case False
  then have "ss[i := (ss ! i)\<lparr>lines := (lines (ss ! i))[j := L]\<rparr>] = ss"
    by (auto simp: list_update_beyond not_less)
  with assms(1) show ?thesis by simp
qed

lemma list_all_lines_push:
  assumes "list_all (\<lambda>sd. list_all P (lines sd)) ss" and "P L"
  shows "list_all (\<lambda>sd. list_all P (lines sd)) (ss[i := (ss ! i)\<lparr>lines := lines (ss ! i) @ [L]\<rparr>])"
proof (cases "i < length ss")
  case True
  then have "ss ! i \<in> set ss" by simp
  with assms have "list_all P (lines (ss ! i) @ [L])" by (simp add: list_all_iff)
  with assms(1) True show ?thesis by (auto simp: list_all_length nth_list_update)
qed (use assms in \<open>simp add: list_update_beyond not_less\<close>)

lemma lines_all_set_line:
  assumes "lines_all P st"
    and "\<And>ss. seeds st = Some ss \<Longrightarrow> i < length ss \<Longrightarrow> j < length (lines (ss ! i)) \<Longrightarrow> P L"
  shows "lines_all P (set_line i j L st)"
  using assms list_all_lines_update [of P] by (cases "seeds st") (auto simp: lines_all_def)

lemma lines_all_push_line:
  assumes "lines_all P st" and "P L"
  shows "lines_all P (push_line i L st)"
  using assms list_all_lines_push [of P] by (cases "seeds st") (auto simp: lines_all_def)

lemma lines_all_set_line_from:
  assumes "lines_all P st" and "seeds st' = seeds st"
    and "\<And>ss. seeds st = Some ss \<Longrightarrow> i < length ss \<Longrightarrow> j < length (lines (ss ! i)) \<Longrightarrow> P L"
  shows "lines_all P (set_line i j L st')"
proof (rule lines_all_set_line)
  show "lines_all P st'" using assms(1) lines_all_seeds [OF assms(2)] by simp
qed (use assms(2,3) in simp)

lemma vis_inv_old:
  assumes "vis_inv cv st" "seeds st = Some ss" "i < length ss" "j < length (lines (ss ! i))"
  shows "line_vis cv (lines_of st i ! j)"
  using assms by (simp add: lines_all_def lines_of_def list_all_length)

lemma check_false_visible:
  "\<not> checkForCollisions (isVisible cv) (line_view i j l) t \<Longrightarrow> isVisible cv (px (p1 l)) (py (p1 l))"
  by (simp add: checkForCollisions_def lineOffscreen_def line_view_def split: if_splits)

lemma buildLine_fst:
  "p0 (fst (buildLine config q a par st)) = q \<and> steps (fst (buildLine config q a par st)) = 1"
  using buildLine_shape [of config q a par st "fst (buildLine config q a par st)"
      "snd (buildLine config q a par st)"] by simp

lemma lines_all_count [simp]: "lines_all P (st\<lparr>activeLineCount := c\<rparr>) = lines_all P st"
  by (simp add: lines_all_def)

lemma lines_all_rng [simp]: "lines_all P (st\<lparr>rngSeed := r\<rparr>) = lines_all P st"
  by (simp add: lines_all_def)

lemma lines_all_buildLine [simp]: "lines_all P (snd (buildLine config q a par st)) = lines_all P st"
  using buildLine_shape [of config q a par st "fst (buildLine config q a par st)"
      "snd (buildLine config q a par st)"] by (simp add: lines_all_def)

lemma grow_line_vis:
  assumes inv: "vis_inv cv st"
  shows "vis_inv cv (grow_line config cv i j st)"
proof -
  obtain l s1 where lg: "line_grow config (lines_of st i ! j) (rngSeed st) = (l, s1)" by fastforce
  from line_grow_shape [OF lg] have p0: "p0 l = p0 (lines_of st i ! j)" by auto
  have set: "vis_inv cv (set_line i j L st')"
    if "seeds st' = seeds st" "p0 L = p0 l"
      "active L \<and> 2 \<le> steps L \<Longrightarrow> isVisible cv (px (p1 L)) (py (p1 L))" for L st'
    using inv that(1)
  proof (rule lines_all_set_line_from)
    fix ss assume "seeds st = Some ss" "i < length ss" "j < length (lines (ss ! i))"
    from vis_inv_old [OF inv this] p0 that(2,3) show "line_vis cv L" by (simp add: line_vis_def)
  qed
  note eq = grow_line_eq [OF lg, of cv]
  show ?thesis
  proof (cases "expired l")
    case ex: True
    show ?thesis unfolding eq by (simp only: ex if_True) (rule set, simp_all)
  next
    case ne: False
    show ?thesis
    proof (cases "checkForCollisions (isVisible cv) (line_view i j l) (forEachLineUntilTrue (seeds (set_line i j l st)))")
      case coll: True
      show ?thesis unfolding eq
        by (simp only: ne coll if_True if_False) (rule set, simp_all add: line_clip_def)
    next
      case nc: False
      then have vis1: "isVisible cv (px (p1 l)) (py (p1 l))" by (rule check_false_visible)
      show ?thesis
      proof (cases "split l")
        case sp: True
        have ch: "line_vis cv (fst (buildLine config (p1 l) a par st'))" for a par st'
          using buildLine_fst [of config "p1 l" a par st'] vis1 by (simp add: line_vis_def)
        have "vis_inv cv (set_line i j (l\<lparr>split := False\<rparr>) st)" by (rule set) (simp_all add: vis1)
        then show ?thesis unfolding eq using ne nc sp ch by (simp add: lines_all_push_line)
      next
        case ns: False
        show ?thesis unfolding eq by (simp only: ne nc ns if_False) (rule set, simp_all add: vis1)
      qed
    qed
  qed
qed

text \<open>
  A property of single lines that \<^verbatim>\<open>grow()\<close>, \<^verbatim>\<open>clip()\<close>, the flag writes and
  \<^verbatim>\<open>buildLine\<close> keep holds of every line after a line's turn.
\<close>

lemma grow_line_lines_all:
  assumes inv: "lines_all P st"
    and grow: "\<And>l s. P l \<Longrightarrow> P (fst (line_grow config l s))"
    and flags: "\<And>l b. P l \<Longrightarrow> P (l\<lparr>active := b\<rparr>)" "\<And>l b. P l \<Longrightarrow> P (l\<lparr>split := b\<rparr>)"
    and clip: "\<And>l. P l \<Longrightarrow> P (line_clip l)"
    and new: "\<And>q a par st'. P (fst (buildLine config q a par st'))"
  shows "lines_all P (grow_line config cv i j st)"
proof -
  obtain l s1 where lg: "line_grow config (lines_of st i ! j) (rngSeed st) = (l, s1)" by fastforce
  have Pl: "P l" if "seeds st = Some ss" "i < length ss" "j < length (lines (ss ! i))" for ss
    using grow [OF lines_all_member [OF inv that(1) nth_mem [OF that(2)] nth_mem [OF that(3)]], of "rngSeed st"]
      lg that(1) by (simp add: lines_of_def)
  have set: "lines_all P (set_line i j L st')" if "seeds st' = seeds st" "P l \<Longrightarrow> P L" for L st'
    using inv that(1) by (rule lines_all_set_line_from) (use Pl that(2) in blast)
  note eq = grow_line_eq [OF lg, of cv]
  show ?thesis
  proof (cases "expired l")
    case ex: True
    show ?thesis unfolding eq by (simp only: ex if_True) (rule set, simp_all add: flags(1))
  next
    case ne: False
    show ?thesis
    proof (cases "checkForCollisions (isVisible cv) (line_view i j l) (forEachLineUntilTrue (seeds (set_line i j l st)))")
      case coll: True
      show ?thesis unfolding eq
        by (simp only: ne coll if_True if_False) (rule set, simp_all add: flags(1) clip)
    next
      case nc: False
      show ?thesis
      proof (cases "split l")
        case sp: True
        show ?thesis unfolding eq
          by (simp only: ne nc sp if_True if_False) (intro lines_all_push_line new, simp, rule set, simp_all add: flags(2))
      next
        case ns: False
        show ?thesis unfolding eq by (simp only: ne nc ns if_False) (rule set, simp_all)
      qed
    qed
  qed
qed

lemma fold_preserve: "(\<And>x s. P s \<Longrightarrow> P (f x s)) \<Longrightarrow> P s \<Longrightarrow> P (fold f xs s)"
  by (induction xs arbitrary: s) auto

lemma model_grow_lines_all:
  assumes step: "\<And>i j s. lines_all P s \<Longrightarrow> lines_all P (grow_line config cv i j s)"
    and "lines_all P st" and "model_grow config cv st = Inr st'"
  shows "lines_all P st'"
proof -
  have seed: "lines_all P (seed_grow config cv i s)" if "lines_all P s" for i s
    using fold_preserve [of "lines_all P", OF step that] by (simp add: seed_grow_def)
  from assms(3) obtain ss where ss: "seeds st = Some ss"
    by (cases "seeds st") (auto simp: model_grow_def)
  with assms(3) have "st' = fold (seed_grow config cv) [0..<length ss] st"
    by (simp add: model_grow_def)
  then show ?thesis using fold_preserve [where P = "lines_all P", OF seed assms(2)] by simp
qed

lemma model_grow_vis:
  "vis_inv cv st \<Longrightarrow> model_grow config cv st = Inr st' \<Longrightarrow> vis_inv cv st'"
  by (rule model_grow_lines_all [OF grow_line_vis])

lemma buildLine_seeds [simp]: "seeds (snd (buildLine config q a par st)) = seeds st"
  using buildLine_shape [of config q a par st "fst (buildLine config q a par st)"
      "snd (buildLine config q a par st)"] by simp

lemma buildSeed_vis:
  assumes "canvas_ok cv"
  shows "list_all (line_vis cv) (lines (fst (buildSeed config cv st))) \<and>
    seeds (snd (buildSeed config cv st)) = seeds st"
proof -
  define a where "a = fst (rnd 0 (pi * 2) (rngSeed st))"
  define x where "x = fst (rnd 0 (width cv) (rngSeed st + mulberry32_incr))"
  define y where "y = fst (rnd 0 (height cv) (rngSeed st + 2 * mulberry32_incr))"
  define st3 where "st3 = st\<lparr>rngSeed := rngSeed st + 3 * mulberry32_incr\<rparr>"
  have bs: "buildSeed config cv st =
      (\<lparr>seed_angle = a, lines = [fst (buildLine config \<lparr>px = x, py = y\<rparr> a None st3)]\<rparr>,
       snd (buildLine config \<lparr>px = x, py = y\<rparr> a None st3))"
    by (simp add: buildSeed_def model_rnd_eq a_def x_def y_def st3_def split_beta algebra_simps)
  have u: "0 \<le> fst (mulberry32 s)" "fst (mulberry32 s) < 1" for s by (rule mulberry32_unit)+
  have r: "fst (rnd 0 w s) = fst (mulberry32 s) * w" for w s by (simp add: rnd_eq)
  have "isVisible cv x y"
    using assms u [of "rngSeed st + mulberry32_incr"] u [of "rngSeed st + 2 * mulberry32_incr"]
    unfolding x_def y_def r canvas_ok_def by blast
  then show ?thesis
    using buildLine_fst [of config "\<lparr>px = x, py = y\<rparr>" a None st3]
    by (simp add: bs line_vis_def st3_def)
qed

lemma build_seeds_vis:
  assumes "canvas_ok cv"
  shows "list_all (\<lambda>sd. list_all (line_vis cv) (lines sd)) (fst (build_seeds config cv n st))"
proof (induction n arbitrary: st)
  case 0
  then show ?case by simp
next
  case (Suc n)
  then show ?case using buildSeed_vis [OF assms, of config st] by (simp add: split_beta)
qed

lemma generate_vis:
  assumes "canvas_ok cv" and "generate config cv st = Inr st'"
  shows "vis_inv cv st'"
  using assms build_seeds_vis [OF assms(1)]
  by (auto simp: generate_def lines_all_def split_beta split: if_splits)

lemma reachable_vis: "reachable config cv st \<Longrightarrow> canvas_ok cv \<Longrightarrow> vis_inv cv st"
proof (induction rule: reachable.induct)
  case (built s)
  then show ?case by (simp add: lines_all_def buildModel_def)
next
  case (generated s st)
  then show ?case using generate_vis by blast
next
  case (grown st st')
  then show ?case using model_grow_vis by blast
qed

lemma buildSeed_line:
  "\<exists>q a st'. lines (fst (buildSeed config cv st)) = [fst (buildLine config q a None st')]"
  by (auto simp: buildSeed_def split_beta Let_def)

lemma generate_lines_all:
  assumes new: "\<And>q a st'. P (fst (buildLine config q a None st'))"
    and "generate config cv st = Inr st'"
  shows "lines_all P st'"
proof -
  have "list_all (\<lambda>sd. list_all P (lines sd)) (fst (build_seeds config cv n s))" for n s
  proof (induction n arbitrary: s)
    case (Suc n)
    obtain q a s' where "lines (fst (buildSeed config cv s)) = [fst (buildLine config q a None s')]"
      using buildSeed_line by blast
    with Suc new show ?case by (simp add: split_beta)
  qed simp
  with assms(2) show ?thesis
    by (auto simp: generate_def lines_all_def split_beta split: if_splits)
qed

text \<open>A per-line property that every line has from its creation on holds in every reachable state.\<close>

lemma reachable_lines_all:
  assumes "reachable config cv st"
    and grow: "\<And>l s. P l \<Longrightarrow> P (fst (line_grow config l s))"
    and flags: "\<And>l b. P l \<Longrightarrow> P (l\<lparr>active := b\<rparr>)" "\<And>l b. P l \<Longrightarrow> P (l\<lparr>split := b\<rparr>)"
    and clip: "\<And>l. P l \<Longrightarrow> P (line_clip l)"
    and new: "\<And>q a par st'. P (fst (buildLine config q a par st'))"
  shows "lines_all P st"
  using assms(1)
proof (induction rule: reachable.induct)
  case (built s)
  then show ?case by (simp add: lines_all_def buildModel_def)
next
  case (generated s st)
  have new0: "\<And>q a st'. P (fst (buildLine config q a None st'))" by (rule new)
  show ?case by (rule generate_lines_all [where P = P, OF new0 generated])
next
  case (grown st st')
  have step: "\<And>i j s. lines_all P s \<Longrightarrow> lines_all P (grow_line config cv i j s)"
    by (rule grow_line_lines_all [OF _ grow flags clip new])
  show ?case by (rule model_grow_lines_all [where P = P, OF step grown.IH grown.hyps(2)])
qed

lemma active_steps_bound:
  assumes "reachable config cv st" and "canvas_ok cv" and "seeds st = Some ss" and "sd \<in> set ss"
    and "l \<in> set (lines sd)" and "active l"
  shows "real (steps l) \<le> max 1 (sqrt ((width cv)\<^sup>2 + (height cv)\<^sup>2))"
proof (cases "steps l < 2")
  case True
  then show ?thesis by simp
next
  case False
  have "line_vis cv l"
    using reachable_vis [OF assms(1,2)] assms(3-5) by (simp add: lines_all_def list_all_iff)
  with False assms(6) have v: "isVisible cv (px (p0 l)) (py (p0 l))" "isVisible cv (px (p1 l)) (py (p1 l))"
    by (simp_all add: line_vis_def)
  with assms(2) have box: "\<bar>px (p1 l) - px (p0 l)\<bar> \<le> \<bar>width cv\<bar>" "\<bar>py (p1 l) - py (p0 l)\<bar> \<le> \<bar>height cv\<bar>"
    unfolding canvas_ok_def by (smt (verit))+
  have "line_geom_ok l"
    using reachable_seeds [OF assms(1,3,4)] assms(5) by (simp add: lines_wf_def list_all_iff)
  from line_geom_dist [OF this] have
    d0: "(px (p1 l) - px (p0 l))\<^sup>2 + (py (p1 l) - py (p0 l))\<^sup>2 = (real (seg_len l))\<^sup>2"
    by blast
  have "seg_len l = steps l" using assms(6) by (simp add: seg_len_def)
  with d0 have d: "(px (p1 l) - px (p0 l))\<^sup>2 + (py (p1 l) - py (p0 l))\<^sup>2 = (real (steps l))\<^sup>2"
    by simp
  have "(px (p1 l) - px (p0 l))\<^sup>2 \<le> (width cv)\<^sup>2" "(py (p1 l) - py (p0 l))\<^sup>2 \<le> (height cv)\<^sup>2"
    using box by (simp_all only: abs_le_square_iff)
  with d have "(real (steps l))\<^sup>2 \<le> (width cv)\<^sup>2 + (height cv)\<^sup>2" by linarith
  then have "real (steps l) \<le> sqrt ((width cv)\<^sup>2 + (height cv)\<^sup>2)" by (rule real_le_rsqrt)
  then show ?thesis by simp
qed

text \<open>
  C25. Every line stops growing within the canvas diagonal: in every reachable state on a
  bounded canvas, an active line has at most \<open>max 1 (sqrt (width\<^sup>2 + height\<^sup>2))\<close>
  steps. As a step is added at every tick the line is active, no line is active for
  more ticks than that.
\<close>

theorem line_lifetime_bound:
  assumes "reachable config cv st" and "canvas_ok cv" and "seeds st = Some ss" and "sd \<in> set ss"
    and "l \<in> set (lines sd)" and "active l"
  shows "real (steps l) \<le> max 1 (sqrt ((width cv)\<^sup>2 + (height cv)\<^sup>2))"
  using assms by (rule active_steps_bound)

end
