(* ===== verification/Render.thy ===== *)
theory Render
  imports Model
begin

text \<open>
  One run of the animation, \<^verbatim>\<open>createNewRender(seed, onFinished)\<close>
  (\<^verbatim>\<open>src/js/generator.js\<close>, lines 200--269). The closure's variables are the
  record \<open>render\<close>: the seed and the \<^verbatim>\<open>onFinished\<close> callback it was created with
  (callbacks are named by numbers, so that the model can record which one is called), the
  configuration, the model (whose \<open>rngSeed\<close> is the run's single generator, shared with
  \<^verbatim>\<open>applyPencil\<close>), and the flag \<^verbatim>\<open>stopRequested\<close>. The collision detector depends only
  on the canvas, a parameter. What each method draws on \<^verbatim>\<open>view.canvas\<close> is output
  only and is in \<open>Canvas\<close>; here is each method's effect on this state and its
  outcome.
  \<^item> \<open>update\<close>: one \<^verbatim>\<open>model.grow()\<close>, then \<^verbatim>\<open>true\<close> (complete) when the model is no
    longer active.
  \<^item> \<open>doUpdate\<close>: the frame callback of \<^verbatim>\<open>start()\<close>, with its three outcomes: the stop
    request is consumed (\<open>Stopped\<close>), \<^verbatim>\<open>onFinished()\<close> is called (\<open>Finished\<close>), or the next
    frame is requested (\<open>Continue\<close>).
  \<^item> \<open>applyPencil\<close>: the draws it makes from the run's generator. The view's
    \<^verbatim>\<open>drawWithPencil\<close> is handed \<^verbatim>\<open>rnd\<close> too; it is not part of the repository, and
    the number of draws it makes per call is the parameter \<open>pd\<close>.
\<close>

record render =
  rseed :: int
  onFinished :: nat
  rconfig :: config
  rmodel :: model
  stopRequested :: bool

text \<open>
  \<^verbatim>\<open>render.init()\<close> (lines 222--230): one generator for the whole run, the random
  configuration drawn from it first, then the model built on the same generator and
  generated. Clearing the canvas and the \<^verbatim>\<open>stopRequested\<close> flag belong to the
  rendering loop and are not modelled.
\<close>

definition render_init :: "int \<Rightarrow> canvas \<Rightarrow> config \<times> (error + model)" where
  "render_init seed cv =
     (let (config, s1) = buildRandomConfig seed in (config, generate config cv (buildModel s1)))"

text \<open>\<^verbatim>\<open>createNewRender(seed, onFinished)\<close> followed by \<^verbatim>\<open>render.init()\<close>, as \<^verbatim>\<open>startNew\<close> calls them.\<close>

definition init_render :: "canvas \<Rightarrow> int \<Rightarrow> nat \<Rightarrow> error + render" where
  "init_render cv seed h =
     (let (config, r) = render_init seed cv
      in case r of Inl e \<Rightarrow> Inl e
         | Inr st \<Rightarrow> Inr \<lparr>rseed = seed, onFinished = h, rconfig = config, rmodel = st,
                          stopRequested = False\<rparr>)"

text \<open>\<^verbatim>\<open>update()\<close> (lines 201--217): the result is \<^verbatim>\<open>isComplete\<close> and the new state.\<close>

definition update :: "canvas \<Rightarrow> render \<Rightarrow> error + bool \<times> render" where
  "update cv r =
     (case model_grow (rconfig r) cv (rmodel r) of
        Inl e \<Rightarrow> Inl e
      | Inr st \<Rightarrow> Inr (\<not> isActive st, r\<lparr>rmodel := st\<rparr>))"

datatype frame_result = Stopped | Finished | Continue

text \<open>\<^verbatim>\<open>doUpdate()\<close> inside \<^verbatim>\<open>start()\<close> (lines 232--244).\<close>

definition doUpdate :: "canvas \<Rightarrow> render \<Rightarrow> error + frame_result \<times> render" where
  "doUpdate cv r =
     (case update cv r of
        Inl e \<Rightarrow> Inl e
      | Inr (isComplete, r') \<Rightarrow>
          if stopRequested r' then Inr (Stopped, r'\<lparr>stopRequested := False\<rparr>)
          else if isComplete then Inr (Finished, r')
          else Inr (Continue, r'))"

text \<open>
  \<^verbatim>\<open>start()\<close> (lines 231--246) with the browser delivering every requested frame:
  \<^verbatim>\<open>doUpdate()\<close> runs at once and asks for the next frame as long as it continues.
  The fuel \<open>n\<close> is the number of frames delivered; with no fuel left the run is still
  \<open>Continue\<close> (a frame is pending). Nothing else happens between the frames here; the
  interleaving with the API calls is \<open>app_step\<close> in \<open>Api\<close>.
\<close>

primrec frame_loop :: "canvas \<Rightarrow> nat \<Rightarrow> render \<Rightarrow> error + frame_result \<times> render" where
  "frame_loop cv 0 r = Inr (Continue, r)"
| "frame_loop cv (Suc n) r =
     (case doUpdate cv r of
        Inl e \<Rightarrow> Inl e
      | Inr (Continue, r') \<Rightarrow> frame_loop cv n r'
      | Inr res \<Rightarrow> Inr res)"

definition stop :: "render \<Rightarrow> render" where
  "stop r = r\<lparr>stopRequested := True\<rparr>"

text \<open>
  The draws \<^verbatim>\<open>applyPencil()\<close> (lines 250--266) makes for one line: with
  \<^verbatim>\<open>pencilHorizontal\<close> set, one \<^verbatim>\<open>rnd()\<close> for the test (\<^verbatim>\<open>||\<close> short-circuits
  otherwise); for a line that is drawn, \<^verbatim>\<open>rnd(10, 100)\<close> for the width and then the
  \<open>pd\<close> draws of \<^verbatim>\<open>drawWithPencil\<close>.
\<close>

definition pencil_test :: "config \<Rightarrow> line \<Rightarrow> int \<Rightarrow> bool \<times> int" where
  "pencil_test config l s =
     (if \<not> pencilHorizontal config then (True, s)
      else let (u, s') = rnd 1 0 s in ((sin (angle l))\<^sup>2 < u, s'))"

definition pencil_line :: "config \<Rightarrow> nat \<Rightarrow> line \<Rightarrow> int \<Rightarrow> int" where
  "pencil_line config pd l s =
     (let (draw, s1) = pencil_test config l s
      in if draw then snd (rnd 10 100 s1) + int pd * mulberry32_incr else s1)"

text \<open>
  The first traversal visits every line of the forest in order (its visitor never
  returns a truthy value); the second only draws.
\<close>

definition applyPencil :: "nat \<Rightarrow> render \<Rightarrow> render" where
  "applyPencil pd r =
     r\<lparr>rmodel := (rmodel r)\<lparr>rngSeed :=
        fold (pencil_line (rconfig r) pd)
          (concat (map lines (case seeds (rmodel r) of None \<Rightarrow> [] | Some ss \<Rightarrow> ss)))
          (rngSeed (rmodel r))\<rparr>\<rparr>"

text \<open>What a render needs for its frames never to throw: an invariant model, generated.\<close>

definition render_ok :: "render \<Rightarrow> bool" where
  "render_ok r \<longleftrightarrow> model_inv (rmodel r) \<and> seeds (rmodel r) \<noteq> None"

subsection \<open>Initialisation and one frame\<close>

text \<open>
  Every run starts live: for any seed and canvas, \<^verbatim>\<open>render.init()\<close> never throws,
  and the model it generates is a reachable state, active, with between 1 and 10 active
  lines (one root per seed), after \<open>12 + 6 * seedCount\<close> draws of the run's generator.
\<close>

lemma render_init_generates:
  "\<exists>st. snd (render_init seed cv) = Inr st \<and> reachable (fst (render_init seed cv)) cv st \<and>
     isActive st \<and> 1 \<le> activeLineCount st \<and> activeLineCount st \<le> 10 \<and>
     rngSeed st = seed + (12 + 6 * seedCount (fst (render_init seed cv))) * mulberry32_incr"
proof -
  obtain config s1 where c: "buildRandomConfig seed = (config, s1)" by fastforce
  have sc: "1 \<le> seedCount config" "seedCount config \<le> 10" and s1: "s1 = seed + 12 * mulberry32_incr"
    using buildRandomConfig_seedCount [of seed] buildRandomConfig_fields [of seed] c by auto
  then obtain st where g: "generate config cv (buildModel s1) = Inr st"
    using generate_Inr [of config cv "buildModel s1"] by auto
  have r: "reachable config cv st" by (rule reachable.generated [OF g])
  from generate_shape [OF g] sc s1 have
    "activeLineCount st = seedCount config"
    "rngSeed st = seed + (12 + 6 * seedCount config) * mulberry32_incr"
    by (simp_all add: buildModel_def algebra_simps)
  with r sc g c show ?thesis by (simp add: render_init_def isActive_def)
qed

lemma init_render_ok:
  "\<exists>r. init_render cv seed h = Inr r \<and> render_ok r \<and> isActive (rmodel r) \<and>
     reachable (rconfig r) cv (rmodel r) \<and>
     rseed r = seed \<and> onFinished r = h \<and> \<not> stopRequested r \<and> rconfig r = fst (buildRandomConfig seed) \<and>
     1 \<le> activeLineCount (rmodel r) \<and> activeLineCount (rmodel r) \<le> 10 \<and>
     rngSeed (rmodel r) = seed + (12 + 6 * seedCount (rconfig r)) * mulberry32_incr"
proof -
  from render_init_generates [of seed cv] obtain st where
    st: "snd (render_init seed cv) = Inr st" "reachable (fst (render_init seed cv)) cv st"
      "isActive st" "1 \<le> activeLineCount st" "activeLineCount st \<le> 10"
      "rngSeed st = seed + (12 + 6 * seedCount (fst (render_init seed cv))) * mulberry32_incr"
    by blast
  have c: "fst (render_init seed cv) = fst (buildRandomConfig seed)"
    by (simp add: render_init_def split_beta)
  have inv: "model_inv st" using st(2) by (rule reachable_model_inv)
  with st(4) have "seeds st \<noteq> None" by (cases "seeds st") (auto simp: model_inv_def)
  moreover have "render_init seed cv = (fst (buildRandomConfig seed), Inr st)"
    using st(1) c by (metis prod.collapse)
  ultimately show ?thesis
    using st inv c by (simp add: init_render_def render_ok_def)
qed

lemma model_grow_some:
  assumes "model_inv st" "seeds st \<noteq> None"
  shows "\<exists>st'. model_grow config cv st = Inr st' \<and> model_inv st' \<and> seeds st' \<noteq> None"
proof -
  obtain ss where ss: "seeds st = Some ss" using assms(2) by blast
  have g: "model_grow config cv st = Inr (projr (model_grow config cv st))"
    using ss by (rule model_grow_projr)
  from model_grow_tick [OF ss g] have "seeds (projr (model_grow config cv st)) \<noteq> None" by auto
  with g model_grow_inv [OF assms(1) g] show ?thesis by blast
qed

lemma doUpdate_ok:
  assumes "render_ok r"
  shows "\<exists>st'. model_grow (rconfig r) cv (rmodel r) = Inr st' \<and> model_inv st' \<and> seeds st' \<noteq> None \<and>
    doUpdate cv r = Inr (if stopRequested r then Stopped else if isActive st' then Continue else Finished,
                         r\<lparr>rmodel := st', stopRequested := False\<rparr>)"
proof -
  from model_grow_some [of "rmodel r" "rconfig r" cv] assms obtain st' where
    g: "model_grow (rconfig r) cv (rmodel r) = Inr st'" "model_inv st'" "seeds st' \<noteq> None"
    by (auto simp: render_ok_def)
  then show ?thesis
    by (cases r) (simp add: doUpdate_def update_def)
qed

lemma render_ok_stop [simp]: "render_ok (stop r) = render_ok r"
  by (simp add: stop_def render_ok_def)

lemma render_ok_applyPencil [simp]: "render_ok (applyPencil pd r) = render_ok r"
  by (simp add: applyPencil_def render_ok_def model_inv_def split: option.splits)

subsection \<open>The pencil pass\<close>

lemma pencil_line_draws:
  "\<exists>k. pencil_line c pd l s = s + int k * mulberry32_incr \<and> 1 \<le> k \<and> k \<le> 2 + pd \<and>
     (\<not> pencilHorizontal c \<longrightarrow> k = 1 + pd)"
proof (cases "pencilHorizontal c")
  case False
  then show ?thesis
    by (intro exI [of _ "1 + pd"]) (simp add: pencil_line_def pencil_test_def rnd_state algebra_simps)
next
  case True
  show ?thesis
  proof (cases "(sin (angle l))\<^sup>2 < fst (rnd 1 0 s)")
    case draw: True
    with True show ?thesis
      by (intro exI [of _ "2 + pd"]) (simp add: pencil_line_def pencil_test_def split_beta rnd_state algebra_simps)
  next
    case False
    with True show ?thesis
      by (intro exI [of _ 1]) (simp add: pencil_line_def pencil_test_def split_beta rnd_state)
  qed
qed

lemma fold_pencil_line:
  "\<exists>d. fold (pencil_line c pd) ls s = s + int d * mulberry32_incr \<and>
     length ls \<le> d \<and> d \<le> length ls * (2 + pd) \<and> (\<not> pencilHorizontal c \<longrightarrow> d = length ls * (1 + pd))"
proof (induction ls arbitrary: s)
  case Nil
  then show ?case by simp
next
  case (Cons l ls)
  from pencil_line_draws [of c pd l s] obtain k where
    k: "pencil_line c pd l s = s + int k * mulberry32_incr" "1 \<le> k" "k \<le> 2 + pd"
       "\<not> pencilHorizontal c \<longrightarrow> k = 1 + pd" by blast
  from Cons.IH [of "s + int k * mulberry32_incr"] obtain d where
    d: "fold (pencil_line c pd) ls (s + int k * mulberry32_incr) = s + int k * mulberry32_incr + int d * mulberry32_incr"
       "length ls \<le> d" "d \<le> length ls * (2 + pd)" "\<not> pencilHorizontal c \<longrightarrow> d = length ls * (1 + pd)"
    by blast
  show ?case
    using k d by (intro exI [of _ "k + d"]) (simp add: algebra_simps)
qed

text \<open>
  C22. What \<^verbatim>\<open>applyPencil()\<close> does to the run: it leaves the forest and the counter
  as they are but takes between one and \<open>2 + pd\<close> draws per line from the run's
  generator (exactly \<open>1 + pd\<close> without \<^verbatim>\<open>pencilHorizontal\<close>). Called during a
  run, it therefore changes every later split, expiry and child of that run.
\<close>

theorem applyPencil_draws:
  assumes "seeds (rmodel r) = Some ss"
  shows "\<exists>d. rmodel (applyPencil pd r) = (rmodel r)\<lparr>rngSeed := rngSeed (rmodel r) + int d * mulberry32_incr\<rparr> \<and>
    total_lines ss \<le> d \<and> d \<le> total_lines ss * (2 + pd) \<and>
    (\<not> pencilHorizontal (rconfig r) \<longrightarrow> d = total_lines ss * (1 + pd))"
proof -
  have "length (concat (map lines ss)) = total_lines ss"
    by (simp add: total_lines_def length_concat comp_def)
  with fold_pencil_line [of "rconfig r" pd "concat (map lines ss)" "rngSeed (rmodel r)"] assms
  show ?thesis by (simp add: applyPencil_def) metis
qed

end
