(* ===== verification/Canvas.thy ===== *)
theory Canvas
  imports Lifetime Render
begin

text \<open>
  What the code hands to \<^verbatim>\<open>view.canvas\<close>. The view is not part of the repository; its
  methods are modelled as commands: \<open>Clear\<close> for \<^verbatim>\<open>clear()\<close>,
  \<open>DrawRect l w c g\<close> for \<^verbatim>\<open>drawRect(line, width, colour, useGradients)\<close>,
  \<open>DrawLine l v\<close> for \<^verbatim>\<open>drawLine(line, `rgb(v,v,v)`)\<close> and
  \<open>DrawWithPencil l w c\<close> for \<^verbatim>\<open>drawWithPencil(line, width, {h, s, l}, rnd)\<close> (the
  generator it is handed is accounted for by \<open>pencil_line\<close>). Colours are kept as the
  numbers the template strings are built from; the conversion of a number to its
  decimal string is not modelled. The canvas itself is the list of commands since its
  last \<^verbatim>\<open>clear()\<close> (\<open>paint\<close>).
\<close>

record hsl =
  hue :: real
  sat :: real
  light :: real

record hsla = hsl +
  alpha :: real

datatype draw_cmd =
    Clear
  | DrawRect line real hsla bool
  | DrawLine line int
  | DrawWithPencil line real hsl

text \<open>
  JavaScript's \<^verbatim>\<open>%\<close> on numbers: the remainder of the division truncated towards
  zero, so it has the sign of the dividend.
\<close>

definition js_rem :: "real \<Rightarrow> real \<Rightarrow> real" where
  "js_rem x y = x - y * of_int (if 0 \<le> x / y then \<lfloor>x / y\<rfloor> else \<lceil>x / y\<rceil>)"

text \<open>The hue of a line's rectangle and pencil stroke (lines 207 and 255).\<close>

definition rect_hue :: "config \<Rightarrow> line \<Rightarrow> real" where
  "rect_hue config l = js_rem (rectBaseHue config + (rnd_tag l - 0.5) * rectHueVariation config) 360"

definition rect_colour :: "config \<Rightarrow> line \<Rightarrow> hsla" where
  "rect_colour config l = \<lparr>hue = rect_hue config l, sat = rectSaturation config,
     light = rectLightness config, alpha = rectAlpha config\<rparr>"

definition pencil_colour :: "config \<Rightarrow> line \<Rightarrow> hsl" where
  "pencil_colour config l = \<lparr>hue = rect_hue config l, sat = rectSaturation config, light = rectLightness config\<rparr>"

text \<open>The grey level \<^verbatim>\<open>Math.round(config.lineDarkness * 100)\<close> (lines 210 and 262).\<close>

definition line_grey :: "config \<Rightarrow> int" where
  "line_grey config = js_round (lineDarkness config * 100)"

text \<open>
  The lines \<^verbatim>\<open>forEachLineUntilTrue\<close> hands to a visitor that never returns a truthy
  value: all of them, seeds in order and lines in order within a seed (lines 82--88).
\<close>

definition forest_lines :: "model \<Rightarrow> line list" where
  "forest_lines st = concat (map lines (case seeds st of None \<Rightarrow> [] | Some ss \<Rightarrow> ss))"

text \<open>
  The drawing part of \<^verbatim>\<open>update()\<close> (lines 204--215), after \<^verbatim>\<open>model.grow()\<close>: when the
  model is still active, clear, one rectangle per line, then one line per line; when it
  is not, nothing.
\<close>

definition update_draws :: "render \<Rightarrow> draw_cmd list" where
  "update_draws r =
     (if isActive (rmodel r)
      then Clear #
           map (\<lambda>l. DrawRect l (min (maxRectWidth (rconfig r)) (real (steps l))) (rect_colour (rconfig r) l)
                      (useGradients (rconfig r))) (forest_lines (rmodel r)) @
           map (\<lambda>l. DrawLine l (line_grey (rconfig r))) (forest_lines (rmodel r))
      else [])"

text \<open>
  The first traversal of \<^verbatim>\<open>applyPencil()\<close> (lines 252--260): the stroke of each line that
  passes the test, with the width drawn by \<^verbatim>\<open>rnd(10, 100)\<close>, the generator moving on
  as \<open>pencil_line\<close> says.
\<close>

primrec pencil_cmds :: "config \<Rightarrow> nat \<Rightarrow> line list \<Rightarrow> int \<Rightarrow> draw_cmd list" where
  "pencil_cmds config pd [] s = []"
| "pencil_cmds config pd (l # ls) s =
     (let (draw, s1) = pencil_test config l s
      in (if draw then [DrawWithPencil l (fst (rnd 10 100 s1)) (pencil_colour config l)] else []) @
         pencil_cmds config pd ls (pencil_line config pd l s))"

text \<open>All of \<^verbatim>\<open>applyPencil()\<close> (lines 250--266) on the canvas.\<close>

definition pencil_draws :: "nat \<Rightarrow> render \<Rightarrow> draw_cmd list" where
  "pencil_draws pd r =
     Clear # pencil_cmds (rconfig r) pd (forest_lines (rmodel r)) (rngSeed (rmodel r)) @
     map (\<lambda>l. DrawLine l (line_grey (rconfig r))) (forest_lines (rmodel r))"

text \<open>The canvas after a sequence of commands: what was drawn since the last clear.\<close>

definition paint :: "draw_cmd list \<Rightarrow> draw_cmd list \<Rightarrow> draw_cmd list" where
  "paint scr cmds = fold (\<lambda>c s. case c of Clear \<Rightarrow> [] | _ \<Rightarrow> s @ [c]) cmds scr"

subsection \<open>The canvas\<close>

lemma update_draws_stop [simp]: "update_draws (r\<lparr>stopRequested := b\<rparr>) = update_draws r"
  by (simp add: update_draws_def)

lemma paint_Nil [simp]: "paint scr [] = scr"
  by (simp add: paint_def)

lemma paint_Clear [simp]: "paint scr (Clear # cmds) = paint [] cmds"
  by (simp add: paint_def)

lemma paint_update_draws:
  "isActive (rmodel r) \<Longrightarrow> paint scr (update_draws r) = paint [] (update_draws r)"
  by (simp add: update_draws_def)

lemma paint_no_clear: "Clear \<notin> set cmds \<Longrightarrow> paint scr cmds = scr @ cmds"
proof (induction cmds arbitrary: scr)
  case (Cons c cmds)
  then show ?case by (cases c) (simp_all add: paint_def)
qed simp

subsection \<open>Colours\<close>

lemma js_rem_nonneg:
  assumes "0 < y" and "0 \<le> x"
  shows "0 \<le> js_rem x y \<and> js_rem x y < y"
proof -
  have q: "0 \<le> x / y" using assms by simp
  have "real_of_int \<lfloor>x / y\<rfloor> * y \<le> x / y * y"
    using assms(1) by (intro mult_right_mono) simp_all
  moreover have "x / y * y < (real_of_int \<lfloor>x / y\<rfloor> + 1) * y"
    using assms(1) by (intro mult_strict_right_mono) simp_all
  moreover have "x / y * y = x" using assms(1) by simp
  ultimately show ?thesis using q assms(1) by (simp add: js_rem_def algebra_simps)
qed

lemma js_rem_small_neg:
  assumes "0 < y" and "- y < x" and "x < 0"
  shows "js_rem x y = x"
proof -
  have "- 1 < x / y" "x / y < 0" using assms by (simp_all add: divide_less_0_iff less_divide_eq)
  then have "\<lceil>x / y\<rceil> = 0" by (simp add: ceiling_eq_iff)
  with \<open>x / y < 0\<close> show ?thesis by (simp add: js_rem_def)
qed

lemma rect_hue_range:
  assumes "0 \<le> rectBaseHue config" "rectBaseHue config < 360"
    and "0 \<le> rectHueVariation config" "rectHueVariation config < 100"
    and "0 \<le> rnd_tag l" "rnd_tag l < 1"
  shows "- 50 < rect_hue config l \<and> rect_hue config l < 360"
proof -
  let ?v = "rectHueVariation config" and ?t = "rnd_tag l"
  have lo: "- (1 / 2) * ?v \<le> (?t - 0.5) * ?v" using assms(3,5) by (intro mult_right_mono) simp_all
  have hi: "(?t - 0.5) * ?v \<le> 1 / 2 * ?v" using assms(3,6) by (intro mult_right_mono) simp_all
  let ?x = "rectBaseHue config + (?t - 0.5) * ?v"
  show ?thesis
  proof (cases "0 \<le> ?x")
    case True
    with js_rem_nonneg [of 360 ?x] show ?thesis by (simp add: rect_hue_def)
  next
    case False
    have "- 360 < ?x" "- 50 < ?x" using lo assms(1,4) by linarith+
    with False js_rem_small_neg [of 360 ?x] show ?thesis by (simp add: rect_hue_def)
  qed
qed

lemma buildLine_tag: "rnd_tag (fst (buildLine config q a par st)) = fst (mulberry32 (rngSeed st))"
  by (simp add: buildLine_def Let_def split_beta line_grow_def model_rnd_def rnd_eq)

lemma reachable_tags: "reachable config cv st \<Longrightarrow> lines_all (\<lambda>l. 0 \<le> rnd_tag l \<and> rnd_tag l < 1) st"
  by (erule reachable_lines_all)
    (simp_all add: line_grow_def Let_def split_beta line_clip_def buildLine_tag mulberry32_unit)

lemma forest_lines_tag:
  assumes "reachable config cv st" and "l \<in> set (forest_lines st)"
  shows "0 \<le> rnd_tag l \<and> rnd_tag l < 1"
proof (cases "seeds st")
  case (Some ss)
  with assms(2) obtain sd where "sd \<in> set ss" "l \<in> set (lines sd)" by (auto simp: forest_lines_def)
  from lines_all_member [OF reachable_tags [OF assms(1)] Some this] show ?thesis .
qed (use assms(2) in \<open>simp add: forest_lines_def\<close>)

lemma pencil_cmds_set:
  "c \<in> set (pencil_cmds config pd ls s) \<Longrightarrow>
   \<exists>l\<in>set ls. \<exists>s1. c = DrawWithPencil l (fst (rnd 10 100 s1)) (pencil_colour config l)"
proof (induction ls arbitrary: s)
  case (Cons l ls)
  then show ?case by (cases "pencil_test config l s") (auto split: if_splits)
qed simp

lemma rnd_10_100: "10 \<le> fst (rnd 10 100 s) \<and> fst (rnd 10 100 s) < 100"
  using mulberry32_unit [of s] by (simp add: rnd_eq)

subsection \<open>Properties of the drawing\<close>

text \<open>
  C28. Every call a frame or the pencil pass makes on the canvas has its arguments in
  range, for any configuration \<^verbatim>\<open>buildRandomConfig\<close> produces: rectangle widths in
  \<open>[0, 100)\<close> and at most the line's step count, pencil widths in \<open>[10, 100)\<close>, grey
  levels in \<open>[0, 100]\<close>, and hues in \<open>(-50, 360)\<close>. A hue is negative when the base hue
  is small and the line's tag below one half, because \<^verbatim>\<open>%\<close> keeps the sign of the
  dividend.
\<close>

theorem canvas_call_ranges:
  assumes "reachable (rconfig r) cv (rmodel r)" and "rconfig r = fst (buildRandomConfig s)"
  shows "\<forall>c\<in>set (update_draws r @ pencil_draws pd r). case c of
      DrawRect l w col g \<Rightarrow> - 50 < hue col \<and> hue col < 360 \<and> 0 \<le> w \<and> w < 100 \<and> w \<le> real (steps l)
    | DrawLine l v \<Rightarrow> 0 \<le> v \<and> v \<le> 100
    | DrawWithPencil l w col \<Rightarrow> - 50 < hue col \<and> hue col < 360 \<and> 10 \<le> w \<and> w < 100
    | Clear \<Rightarrow> True"
proof -
  note cfg = buildRandomConfig_visual [of s, folded assms(2)]
  have hue: "- 50 < rect_hue (rconfig r) l \<and> rect_hue (rconfig r) l < 360"
    if "l \<in> set (forest_lines (rmodel r))" for l
    using forest_lines_tag [OF assms(1) that] cfg by (intro rect_hue_range) simp_all
  have "real_of_int 0 \<le> lineDarkness (rconfig r) * 100" "lineDarkness (rconfig r) * 100 < real_of_int 100"
    using cfg by simp_all
  from js_round_bounds [OF this] have grey: "0 \<le> line_grey (rconfig r) \<and> line_grey (rconfig r) \<le> 100"
    by (simp add: line_grey_def)
  have "0 \<le> min (maxRectWidth (rconfig r)) (real (steps l)) \<and> min (maxRectWidth (rconfig r)) (real (steps l)) < 100"
    for l using cfg by (simp add: min_less_iff_disj)
  with hue grey pencil_cmds_set [of _ "rconfig r" pd "forest_lines (rmodel r)" "rngSeed (rmodel r)"] rnd_10_100
  show ?thesis
    by (fastforce simp: update_draws_def pencil_draws_def rect_colour_def pencil_colour_def)
qed

text \<open>
  C29. With \<^verbatim>\<open>pencilHorizontal\<close> set, the pencil pass strokes a line only when
  \<open>sin\<^sup>2\<close> of its angle is below a draw in \<open>[0, 1)\<close>. A line with \<open>sin\<^sup>2 = 1\<close>, which
  runs along the x axis (its step is \<open>(\<plusminus>1, 0)\<close>), is never stroked: the option keeps
  pencil strokes off horizontal lines.
\<close>

theorem pencil_skips_horizontal:
  assumes "pencilHorizontal (rconfig r)"
  shows "\<forall>c\<in>set (pencil_draws pd r). \<forall>l w col. c = DrawWithPencil l w col \<longrightarrow> (sin (angle l))\<^sup>2 < 1"
proof -
  have "(sin (angle l))\<^sup>2 < 1"
    if "DrawWithPencil l w col \<in> set (pencil_cmds (rconfig r) pd ls s)" for l w col ls s
    using that
  proof (induction ls arbitrary: s)
    case (Cons l' ls)
    have "fst (rnd 1 0 s) < 1" by (simp add: rnd_eq mulberry32_unit)
    with Cons assms show ?case
      by (auto simp: pencil_test_def split_beta split: if_splits)
  qed simp
  then show ?thesis by (auto simp: pencil_draws_def)
qed

end
