(* ===== verification/Api.thy ===== *)
theory Api
  imports Canvas
begin

text \<open>
  The public object \<^verbatim>\<open>generator\<close> (\<^verbatim>\<open>src/js/generator.js\<close>, lines 271--295) together
  with the browser's frame queue, as a state machine. The module's two variables,
  \<^verbatim>\<open>render\<close> and \<^verbatim>\<open>onFinishedCurrentHandler\<close>, become the fields \<open>current\<close> and
  \<open>handler\<close> of the record \<open>app\<close>. Renders are never freed: a render that
  \<^verbatim>\<open>startNew\<close> replaces can still have a frame pending, so every render ever created
  is kept in \<open>renders\<close>, and \<open>current\<close> is the index of the one the variable refers to.
  \<open>frames\<close> is the queue of \<^verbatim>\<open>requestAnimationFrame\<close> callbacks, each the
  \<^verbatim>\<open>doUpdate\<close> of a render, run in order. \<open>finished\<close> logs the calls of
  \<^verbatim>\<open>onFinished()\<close>, as pairs of render and callback. \<open>screen\<close> is the one
  \<^verbatim>\<open>view.canvas\<close> all renders draw on, as the commands since its last clear.

  The events are the five API calls and \<open>Frame\<close>, the browser running the first pending
  callback. \<^verbatim>\<open>startNew()\<close> without an argument uses \<^verbatim>\<open>Date.now() & 0xfffff\<close>;
  the clock's value is the event's second argument. A call on \<^verbatim>\<open>render\<close> while it is
  still \<^verbatim>\<open>undefined\<close> is a \<open>TypeError\<close>. The callbacks themselves are opaque. A callback
  that calls back into the API is modelled as the API events that follow it.
\<close>

unbundle bit_operations_syntax

record app =
  renders :: "render list"
  current :: "nat option"
  handler :: nat
  frames :: "nat list"
  finished :: "(nat \<times> nat) list"
  screen :: "draw_cmd list"

text \<open>The state when the script has loaded: no render, the no-op callback \<open>0\<close>.\<close>

definition app_init :: app where
  "app_init = \<lparr>renders = [], current = None, handler = 0, frames = [], finished = [], screen = []\<rparr>"

datatype event = StartNew "int option" int | Resume | Pause | ApplyPencil | OnFinishedCurrent nat | Frame

text \<open>The default seed of \<^verbatim>\<open>startNew(seed = Date.now() & 0xfffff)\<close>.\<close>

definition default_seed :: "int \<Rightarrow> int" where
  "default_seed now = now AND 0xFFFFF"

text \<open>
  Running the frame callback \<^verbatim>\<open>doUpdate\<close> of render \<open>i\<close> and applying its outcome;
  its \<^verbatim>\<open>update()\<close> draws on the shared canvas before the outcome is decided.
\<close>

definition run_frame :: "canvas \<Rightarrow> nat \<Rightarrow> app \<Rightarrow> error + app" where
  "run_frame cv i a =
     (case doUpdate cv (renders a ! i) of
        Inl e \<Rightarrow> Inl e
      | Inr (res, r') \<Rightarrow>
          (let a' = a\<lparr>renders := (renders a)[i := r'], screen := paint (screen a) (update_draws r')\<rparr>
           in Inr (case res of
                     Stopped \<Rightarrow> a'
                   | Finished \<Rightarrow> a'\<lparr>finished := finished a' @ [(i, onFinished r')]\<rparr>
                   | Continue \<Rightarrow> a'\<lparr>frames := frames a' @ [i]\<rparr>)))"

definition stop_current :: "app \<Rightarrow> app" where
  "stop_current a =
     (case current a of None \<Rightarrow> a | Some j \<Rightarrow> a\<lparr>renders := (renders a)[j := stop (renders a ! j)]\<rparr>)"

text \<open>
  \<^verbatim>\<open>startNew\<close> stops the current render, creates and initialises a new one with the
  current handler (its \<^verbatim>\<open>init()\<close> clears the canvas), makes it current and calls its
  \<^verbatim>\<open>start()\<close>, which runs the first \<^verbatim>\<open>doUpdate\<close> at once.
\<close>

definition startNew :: "canvas \<Rightarrow> int \<Rightarrow> app \<Rightarrow> error + app" where
  "startNew cv seed a =
     (let a1 = stop_current a
      in case init_render cv seed (handler a1) of
           Inl e \<Rightarrow> Inl e
         | Inr r \<Rightarrow> run_frame cv (length (renders a1))
                      (a1\<lparr>renders := renders a1 @ [r], current := Some (length (renders a1)), screen := []\<rparr>))"

definition app_step :: "canvas \<Rightarrow> nat \<Rightarrow> app \<Rightarrow> event \<Rightarrow> error + app" where
  "app_step cv pd a e =
     (case e of
        StartNew so now \<Rightarrow> startNew cv (case so of None \<Rightarrow> default_seed now | Some s \<Rightarrow> s) a
      | Resume \<Rightarrow> (case current a of None \<Rightarrow> Inl TypeError | Some j \<Rightarrow> run_frame cv j a)
      | Pause \<Rightarrow> (case current a of None \<Rightarrow> Inl TypeError | Some j \<Rightarrow> Inr (stop_current a))
      | ApplyPencil \<Rightarrow> (case current a of None \<Rightarrow> Inl TypeError
                       | Some j \<Rightarrow> Inr (a\<lparr>renders := (renders a)[j := applyPencil pd (renders a ! j)],
                                          screen := paint (screen a) (pencil_draws pd (renders a ! j))\<rparr>))
      | OnFinishedCurrent h \<Rightarrow> Inr (a\<lparr>handler := h\<rparr>)
      | Frame \<Rightarrow> (case frames a of [] \<Rightarrow> Inr a | i # rest \<Rightarrow> run_frame cv i (a\<lparr>frames := rest\<rparr>)))"

text \<open>A sequence of events, stopping at the first error.\<close>

fun app_run :: "canvas \<Rightarrow> nat \<Rightarrow> app \<Rightarrow> event list \<Rightarrow> error + app" where
  "app_run cv pd a [] = Inr a"
| "app_run cv pd a (e # es) =
     (case app_step cv pd a e of Inl err \<Rightarrow> Inl err | Inr a' \<Rightarrow> app_run cv pd a' es)"

subsection \<open>Well-formed states\<close>

text \<open>
  The states the API can be in: those reached from the initial state by events that do
  not throw. \<open>app_wf\<close> is the invariant they satisfy.
\<close>

inductive app_reach :: "canvas \<Rightarrow> nat \<Rightarrow> app \<Rightarrow> bool" for cv pd where
  init: "app_reach cv pd app_init"
| step: "app_reach cv pd a \<Longrightarrow> app_step cv pd a e = Inr a' \<Longrightarrow> app_reach cv pd a'"


definition app_wf :: "app \<Rightarrow> bool" where
  "app_wf a \<longleftrightarrow>
     (case current a of None \<Rightarrow> renders a = [] | Some j \<Rightarrow> j < length (renders a)) \<and>
     list_all (\<lambda>i. i < length (renders a)) (frames a) \<and> list_all render_ok (renders a)"

subsection \<open>One frame and one event\<close>

lemma run_frame_ok:
  assumes "app_wf a" and "i < length (renders a)"
  shows "\<exists>st' a'. model_grow (rconfig (renders a ! i)) cv (rmodel (renders a ! i)) = Inr st' \<and>
    run_frame cv i a = Inr a' \<and> app_wf a' \<and>
    a' = (let a1 = a\<lparr>renders := (renders a)[i := (renders a ! i)\<lparr>rmodel := st', stopRequested := False\<rparr>],
                      screen := paint (screen a) (update_draws ((renders a ! i)\<lparr>rmodel := st'\<rparr>))\<rparr>
          in if stopRequested (renders a ! i) then a1
             else if isActive st' then a1\<lparr>frames := frames a @ [i]\<rparr>
             else a1\<lparr>finished := finished a @ [(i, onFinished (renders a ! i))]\<rparr>)"
proof -
  have ok: "render_ok (renders a ! i)" using assms by (simp add: app_wf_def list_all_length)
  from doUpdate_ok [OF ok, of cv] obtain st' where
    g: "model_grow (rconfig (renders a ! i)) cv (rmodel (renders a ! i)) = Inr st'"
      "model_inv st'" "seeds st' \<noteq> None" and
    d: "doUpdate cv (renders a ! i) = Inr (if stopRequested (renders a ! i) then Stopped
          else if isActive st' then Continue else Finished,
          (renders a ! i)\<lparr>rmodel := st', stopRequested := False\<rparr>)"
    by blast
  define r' where "r' = (renders a ! i)\<lparr>rmodel := st', stopRequested := False\<rparr>"
  have ok': "list_all render_ok ((renders a)[i := r'])"
    using assms g(2,3) unfolding app_wf_def r'_def
    by (auto simp: list_all_length nth_list_update render_ok_def)
  have cur: "case current a of None \<Rightarrow> (renders a)[i := r'] = [] | Some j \<Rightarrow> j < length ((renders a)[i := r'])"
    using assms by (simp add: app_wf_def split: option.splits)
  have fr: "list_all (\<lambda>k. k < length ((renders a)[i := r'])) (frames a @ [i])"
    using assms by (simp add: app_wf_def)
  show ?thesis
    using g(1) ok' cur fr unfolding r'_def
    by (cases "stopRequested (renders a ! i)"; cases "isActive st'")
      (simp_all add: run_frame_def d Let_def app_wf_def split: option.splits)
qed

lemma app_wf_stop_current: "app_wf a \<Longrightarrow> app_wf (stop_current a)"
  by (auto simp: app_wf_def stop_current_def list_all_length nth_list_update split: option.splits)

lemma stop_current_shape [simp]:
  "length (renders (stop_current a)) = length (renders a)" "current (stop_current a) = current a"
  "frames (stop_current a) = frames a" "finished (stop_current a) = finished a"
  "handler (stop_current a) = handler a"
  by (simp_all add: stop_current_def split: option.splits)

lemma app_step_ok:
  assumes wf: "app_wf a"
  shows "(\<exists>a'. app_step cv pd a e = Inr a' \<and> app_wf a') \<or>
    (current a = None \<and> e \<in> {Resume, Pause, ApplyPencil} \<and> app_step cv pd a e = Inl TypeError)"
proof (cases e)
  case (StartNew so now)
  define seed where "seed = (case so of None \<Rightarrow> default_seed now | Some s \<Rightarrow> s)"
  define a1 where "a1 = stop_current a"
  have wf1: "app_wf a1" unfolding a1_def using wf by (rule app_wf_stop_current)
  from init_render_ok [of cv seed "handler a1"] obtain r where
    r: "init_render cv seed (handler a1) = Inr r" "render_ok r" by blast
  define a2 where "a2 = a1\<lparr>renders := renders a1 @ [r], current := Some (length (renders a1)), screen := []\<rparr>"
  have wf2: "app_wf a2"
    using wf1 r(2) unfolding a2_def app_wf_def by (auto simp: list_all_iff)
  from run_frame_ok [OF wf2, of "length (renders a1)" cv] obtain a' where
    "run_frame cv (length (renders a1)) a2 = Inr a'" "app_wf a'"
    by (auto simp: a2_def)
  then show ?thesis
    using r(1) by (simp add: StartNew app_step_def startNew_def seed_def a1_def a2_def)
next
  case Resume
  then show ?thesis
  proof (cases "current a")
    case (Some j)
    with wf have "j < length (renders a)" by (simp add: app_wf_def)
    from run_frame_ok [OF wf this, of cv] obtain a' where
      "run_frame cv j a = Inr a'" "app_wf a'"
      by blast
    with Some Resume show ?thesis by (simp add: app_step_def)
  qed (simp add: app_step_def)
next
  case Pause
  then show ?thesis using app_wf_stop_current [OF wf]
    by (cases "current a") (simp_all add: app_step_def)
next
  case ApplyPencil
  then show ?thesis using wf
    by (cases "current a")
      (auto simp: app_step_def app_wf_def list_all_length nth_list_update)
next
  case (OnFinishedCurrent h)
  then show ?thesis using wf by (simp add: app_step_def app_wf_def split: option.splits)
next
  case Frame
  show ?thesis
  proof (cases "frames a")
    case (Cons i rest)
    with wf have wf': "app_wf (a\<lparr>frames := rest\<rparr>)" and i: "i < length (renders a)"
      by (simp_all add: app_wf_def split: option.splits)
    from run_frame_ok [OF wf', of i cv] i obtain a' where
      "run_frame cv i (a\<lparr>frames := rest\<rparr>) = Inr a'" "app_wf a'"
      by auto
    with Cons Frame show ?thesis by (simp add: app_step_def)
  qed (simp add: Frame app_step_def wf)
qed

subsection \<open>Properties of the API\<close>

lemma app_wf_init: "app_wf app_init"
  by (simp add: app_wf_def app_init_def)

text \<open>
  C15. Well-formedness of the API state: in every state reachable by API calls and
  frames, the current render and every pending frame refer to existing renders, and
  every render holds a generated model satisfying the growth model's invariant. So no
  \<^verbatim>\<open>model.grow()\<close> inside a frame ever takes the \<open>TypeError\<close> branch.
\<close>

theorem app_reach_wf: "app_reach cv pd a \<Longrightarrow> app_wf a"
proof (induction rule: app_reach.induct)
  case init
  then show ?case by (rule app_wf_init)
next
  case (step a e a')
  from app_step_ok [OF step.IH, of cv pd e] step.hyps(2) show ?case by auto
qed

text \<open>
  C18. The only error of the API: \<^verbatim>\<open>resume()\<close>, \<^verbatim>\<open>pause()\<close> or
  \<^verbatim>\<open>applyPencil()\<close> before the first \<^verbatim>\<open>startNew()\<close> throw a \<open>TypeError\<close>
  (\<^verbatim>\<open>render\<close> is \<^verbatim>\<open>undefined\<close>); in a well-formed state every other call
  succeeds, \<^verbatim>\<open>startNew\<close> included (its configuration never makes \<^verbatim>\<open>Array(n)\<close> throw).
\<close>

theorem app_step_error:
  assumes "app_wf a" and "app_step cv pd a e = Inl err"
  shows "err = TypeError \<and> current a = None \<and> renders a = [] \<and> e \<in> {Resume, Pause, ApplyPencil}"
  using app_step_ok [OF assms(1), of cv pd e] assms by (auto simp: app_wf_def)

text \<open>
  C16. One animation frame: the first pending callback's render grows by exactly one
  tick, whatever its flag. Then a pending stop request is consumed and the loop ends.
  Otherwise the loop requests the next frame while the model is active, or calls
  that render's \<^verbatim>\<open>onFinished\<close> once it is not. A pause therefore takes effect
  only after one more tick.
\<close>

theorem frame_step:
  assumes "app_wf a" and "frames a = i # rest"
  shows "\<exists>st'. model_grow (rconfig (renders a ! i)) cv (rmodel (renders a ! i)) = Inr st' \<and>
    app_step cv pd a Frame =
      Inr (let a1 = a\<lparr>frames := rest,
                       renders := (renders a)[i := (renders a ! i)\<lparr>rmodel := st', stopRequested := False\<rparr>],
                       screen := paint (screen a) (update_draws ((renders a ! i)\<lparr>rmodel := st'\<rparr>))\<rparr>
           in if stopRequested (renders a ! i) then a1
              else if isActive st' then a1\<lparr>frames := rest @ [i]\<rparr>
              else a1\<lparr>finished := finished a @ [(i, onFinished (renders a ! i))]\<rparr>)"
proof -
  from assms have wf': "app_wf (a\<lparr>frames := rest\<rparr>)" and i: "i < length (renders a)"
    by (simp_all add: app_wf_def split: option.splits)
  have i': "i < length (renders (a\<lparr>frames := rest\<rparr>))" using i by simp
  from run_frame_ok [OF wf' i', of cv] obtain st' where
    g: "model_grow (rconfig (renders a ! i)) cv (rmodel (renders a ! i)) = Inr st'" and
    r: "run_frame cv i (a\<lparr>frames := rest\<rparr>) =
      Inr (let a1 = a\<lparr>frames := rest\<rparr>\<lparr>renders := (renders a)[i := (renders a ! i)\<lparr>rmodel := st', stopRequested := False\<rparr>],
                 screen := paint (screen a) (update_draws ((renders a ! i)\<lparr>rmodel := st'\<rparr>))\<rparr>
           in if stopRequested (renders a ! i) then a1
              else if isActive st' then a1\<lparr>frames := rest @ [i]\<rparr>
              else a1\<lparr>finished := finished a @ [(i, onFinished (renders a ! i))]\<rparr>)"
    by (auto simp: Let_def)
  show ?thesis
    using assms(2) g r by (intro exI [of _ st']) (simp add: app_step_def)
qed

lemma resume_run_frame:
  assumes "app_wf a" and "current a = Some j"
  shows "\<exists>st'. model_grow (rconfig (renders a ! j)) cv (rmodel (renders a ! j)) = Inr st' \<and>
    app_step cv pd a Resume =
      Inr (let a1 = a\<lparr>renders := (renders a)[j := (renders a ! j)\<lparr>rmodel := st', stopRequested := False\<rparr>],
                       screen := paint (screen a) (update_draws ((renders a ! j)\<lparr>rmodel := st'\<rparr>))\<rparr>
           in if stopRequested (renders a ! j) then a1
              else if isActive st' then a1\<lparr>frames := frames a @ [j]\<rparr>
              else a1\<lparr>finished := finished a @ [(j, onFinished (renders a ! j))]\<rparr>)"
proof -
  have j: "j < length (renders a)" using assms by (simp add: app_wf_def)
  from run_frame_ok [OF assms(1) j, of cv] assms(2) show ?thesis
    by (auto simp: app_step_def)
qed

text \<open>
  C20. A stop request that no frame consumed survives until the next
  \<^verbatim>\<open>resume()\<close>. That happens after \<^verbatim>\<open>pause()\<close> on a render whose loop already
  ended, e.g. a second \<^verbatim>\<open>pause()\<close>. The resume then runs a single tick, consumes the
  flag and requests no frame: the loop does not restart.
\<close>

theorem resume_stop_pending:
  assumes "app_wf a" and "current a = Some j" and "stopRequested (renders a ! j)"
    and "app_step cv pd a Resume = Inr a'"
  shows "frames a' = frames a \<and> finished a' = finished a \<and> \<not> stopRequested (renders a' ! j)"
proof -
  have j: "j < length (renders a)" using assms by (simp add: app_wf_def)
  from resume_run_frame [OF assms(1,2), of cv pd] assms(3,4) j show ?thesis by (auto simp: Let_def)
qed

text \<open>
  C19. \<^verbatim>\<open>resume()\<close> while the loop runs starts a second loop: the render gets one
  more pending frame callback, so it grows twice per frame, and one
  \<^verbatim>\<open>pause()\<close> stops only one of the loops.
\<close>

theorem resume_while_running:
  assumes "app_wf a" and "current a = Some j" and "\<not> stopRequested (renders a ! j)"
    and "model_grow (rconfig (renders a ! j)) cv (rmodel (renders a ! j)) = Inr st'" and "isActive st'"
    and "app_step cv pd a Resume = Inr a'"
  shows "frames a' = frames a @ [j] \<and> count_list (frames a') j = Suc (count_list (frames a) j)"
  using resume_run_frame [OF assms(1,2), of cv pd] assms(3-6) by (auto simp: Let_def)

text \<open>
  C21. \<^verbatim>\<open>resume()\<close> after a run has finished leaves the model as it is (a finished
  model is a fixed point of \<^verbatim>\<open>grow()\<close>) and calls the render's
  \<^verbatim>\<open>onFinished\<close> again.
\<close>

theorem resume_after_finish:
  assumes "app_wf a" and "current a = Some j" and "\<not> stopRequested (renders a ! j)"
    and "\<not> isActive (rmodel (renders a ! j))"
  shows "app_step cv pd a Resume = Inr (a\<lparr>finished := finished a @ [(j, onFinished (renders a ! j))]\<rparr>)"
proof -
  have j: "j < length (renders a)" using assms by (simp add: app_wf_def)
  then have ok: "render_ok (renders a ! j)" using assms(1) by (simp add: app_wf_def list_all_length)
  then obtain ss where "seeds (rmodel (renders a ! j)) = Some ss" by (auto simp: render_ok_def)
  with ok assms(4) have g: "model_grow (rconfig (renders a ! j)) cv (rmodel (renders a ! j)) = Inr (rmodel (renders a ! j))"
    by (intro model_grow_idle) (simp_all add: render_ok_def)
  have "(renders a ! j)\<lparr>stopRequested := False\<rparr> = renders a ! j"
    using assms(3) by (intro render.equality) simp_all
  then have "(renders a)[j := (renders a ! j)\<lparr>stopRequested := False\<rparr>] = renders a" by simp
  with resume_run_frame [OF assms(1,2), of cv pd] g assms(3,4) j
  show ?thesis by (simp add: Let_def update_draws_def)
qed

lemma startNew_run:
  assumes wf: "app_wf a"
  shows "\<exists>r st' a'. init_render cv seed (handler a) = Inr r \<and> reachable (rconfig r) cv (rmodel r) \<and>
    rseed r = seed \<and> onFinished r = handler a \<and> \<not> stopRequested r \<and>
    model_grow (rconfig r) cv (rmodel r) = Inr st' \<and> startNew cv seed a = Inr a' \<and> app_wf a' \<and>
    renders a' = renders (stop_current a) @ [r\<lparr>rmodel := st'\<rparr>] \<and>
    current a' = Some (length (renders a)) \<and> handler a' = handler a \<and>
    frames a' = frames a @ (if isActive st' then [length (renders a)] else []) \<and>
    finished a' = finished a @ (if isActive st' then [] else [(length (renders a), handler a)]) \<and>
    screen a' = paint [] (update_draws (r\<lparr>rmodel := st'\<rparr>))"
proof -
  define a1 where "a1 = stop_current a"
  have wf1: "app_wf a1" unfolding a1_def using wf by (rule app_wf_stop_current)
  have len: "length (renders a1) = length (renders a)" "handler a1 = handler a" "current a1 = current a"
    "frames a1 = frames a" "finished a1 = finished a"
    by (simp_all add: a1_def)
  from init_render_ok [of cv seed "handler a1"] obtain r where
    r: "init_render cv seed (handler a1) = Inr r" "render_ok r" "reachable (rconfig r) cv (rmodel r)"
       "rseed r = seed" "onFinished r = handler a1" "\<not> stopRequested r"
    by blast
  define n where "n = length (renders a1)"
  define a2 where "a2 = a1\<lparr>renders := renders a1 @ [r], current := Some n, screen := []\<rparr>"
  have wf2: "app_wf a2"
    using wf1 r(2) unfolding a2_def app_wf_def n_def by (auto simp: list_all_iff)
  have n: "n < length (renders a2)" by (simp add: a2_def n_def)
  have rn: "renders a2 ! n = r" by (simp add: a2_def n_def)
  from run_frame_ok [OF wf2 n, of cv] rn obtain st' a' where
    g: "model_grow (rconfig r) cv (rmodel r) = Inr st'" and
    rf: "run_frame cv n a2 = Inr a'" "app_wf a'" and
    a': "a' = (let a3 = a2\<lparr>renders := (renders a2)[n := r\<lparr>rmodel := st', stopRequested := False\<rparr>],
                         screen := paint (screen a2) (update_draws (r\<lparr>rmodel := st'\<rparr>))\<rparr>
          in if stopRequested r then a3
             else if isActive st' then a3\<lparr>frames := frames a2 @ [n]\<rparr>
             else a3\<lparr>finished := finished a2 @ [(n, onFinished r)]\<rparr>)"
    by auto
  have "r\<lparr>rmodel := st', stopRequested := False\<rparr> = r\<lparr>rmodel := st'\<rparr>"
    using r(6) by (intro render.equality) simp_all
  with a' r(6) have a'': "a' = (let a3 = a2\<lparr>renders := (renders a1 @ [r])[n := r\<lparr>rmodel := st'\<rparr>],
                         screen := paint [] (update_draws (r\<lparr>rmodel := st'\<rparr>))\<rparr>
          in if isActive st' then a3\<lparr>frames := frames a2 @ [n]\<rparr>
             else a3\<lparr>finished := finished a2 @ [(n, onFinished r)]\<rparr>)"
    by (simp add: a2_def)
  have step: "startNew cv seed a = Inr a'"
    using r(1) rf(1) by (simp add: startNew_def a1_def a2_def n_def)
  show ?thesis
    using r g step rf(2) len a''
    by (intro exI [of _ r] exI [of _ st'] exI [of _ a'])
      (auto simp: a2_def n_def a1_def Let_def list_update_append)
qed

subsection \<open>Runs of frames\<close>

lemma app_run_idle_frames: "frames a = [] \<Longrightarrow> app_run cv pd a (replicate n Frame) = Inr a"
  by (induction n) (simp_all add: app_step_def)

text \<open>
  With only its own frame pending, a render's frames delivered one by one as
  \<open>Frame\<close> events follow \<open>frame_loop\<close>: when the loop ends with \<open>Finished\<close>, the
  render's \<^verbatim>\<open>onFinished\<close> has been called.
\<close>

lemma frames_follow_loop:
  assumes "app_wf a" and "frames a = [i]" and "\<not> stopRequested (renders a ! i)"
    and "frame_loop cv n (renders a ! i) = Inr (Finished, r')"
  shows "\<exists>a'. app_run cv pd a (replicate n Frame) = Inr a' \<and> (i, onFinished (renders a ! i)) \<in> set (finished a')"
  using assms
proof (induction n arbitrary: a)
  case 0
  then show ?case by simp
next
  case (Suc m)
  from Suc.prems(1,2) have wf': "app_wf (a\<lparr>frames := []\<rparr>)" and i: "i < length (renders (a\<lparr>frames := []\<rparr>))"
    by (simp_all add: app_wf_def split: option.splits)
  from run_frame_ok [OF wf' i, of cv] obtain st' a1 where
    g: "model_grow (rconfig (renders a ! i)) cv (rmodel (renders a ! i)) = Inr st'" and
    rf: "run_frame cv i (a\<lparr>frames := []\<rparr>) = Inr a1" "app_wf a1" and
    F: "frames a1 = (if isActive st' then [i] else [])"
       "renders a1 ! i = (renders a ! i)\<lparr>rmodel := st', stopRequested := False\<rparr>"
       "\<not> isActive st' \<Longrightarrow> (i, onFinished (renders a ! i)) \<in> set (finished a1)"
    using i Suc.prems(3) by (auto simp: Let_def)
  have step: "app_run cv pd a (replicate (Suc m) Frame) = app_run cv pd a1 (replicate m Frame)"
    using Suc.prems(2) rf(1) by (simp add: app_step_def)
  have du: "doUpdate cv (renders a ! i) =
      Inr (if isActive st' then Continue else Finished, (renders a ! i)\<lparr>rmodel := st', stopRequested := False\<rparr>)"
    using Suc.prems(3) g by (simp add: doUpdate_def update_def)
  show ?case
  proof (cases "isActive st'")
    case False
    with F have "frames a1 = []" "(i, onFinished (renders a ! i)) \<in> set (finished a1)"
      by simp_all
    with step app_run_idle_frames [of a1 cv pd m] show ?thesis by auto
  next
    case True
    let ?r1 = "(renders a ! i)\<lparr>rmodel := st', stopRequested := False\<rparr>"
    have a1s: "frames a1 = [i]" "renders a1 ! i = ?r1" "\<not> stopRequested (renders a1 ! i)"
      using F True by simp_all
    have "frame_loop cv m ?r1 = Inr (Finished, r')" using Suc.prems(4) du True by simp
    with Suc.IH [OF rf(2) a1s(1) a1s(3)] a1s(2) obtain a' where
      "app_run cv pd a1 (replicate m Frame) = Inr a'" "(i, onFinished ?r1) \<in> set (finished a')"
      by auto
    with step show ?thesis by simp
  qed
qed

text \<open>
  C17. \<^verbatim>\<open>startNew()\<close> always succeeds. It sets the stop flag of the render it
  replaces, and that render's pending frame is still run once. It creates the new
  render with the callback registered at this moment, so a later
  \<^verbatim>\<open>onFinishedCurrent()\<close> does not reach it. The new render becomes current, and
  after its first frame its model is a reachable state of the growth model.
\<close>

theorem startNew_spec:
  assumes wf: "app_wf a"
  shows "\<exists>a'. app_step cv pd a (StartNew so now) = Inr a' \<and> app_wf a' \<and>
    current a' = Some (length (renders a)) \<and> length (renders a') = Suc (length (renders a)) \<and>
    rseed (renders a' ! length (renders a)) = (case so of None \<Rightarrow> default_seed now | Some s \<Rightarrow> s) \<and>
    onFinished (renders a' ! length (renders a)) = handler a \<and>
    reachable (rconfig (renders a' ! length (renders a))) cv (rmodel (renders a' ! length (renders a))) \<and>
    (\<forall>j. current a = Some j \<longrightarrow> stopRequested (renders a' ! j))"
proof -
  define seed where "seed = (case so of None \<Rightarrow> default_seed now | Some s \<Rightarrow> s)"
  from startNew_run [OF wf, of cv seed] obtain r st' a' where
    r: "reachable (rconfig r) cv (rmodel r)" "rseed r = seed" "onFinished r = handler a"
      "model_grow (rconfig r) cv (rmodel r) = Inr st'" and
    a': "startNew cv seed a = Inr a'" "app_wf a'" "renders a' = renders (stop_current a) @ [r\<lparr>rmodel := st'\<rparr>]"
      "current a' = Some (length (renders a))"
    by blast
  have reach: "reachable (rconfig r) cv st'" using reachable.grown [OF r(1,4)] .
  have stopped: "stopRequested (renders a' ! j)" if "current a = Some j" for j
  proof -
    have "j < length (renders a)" using wf that by (simp add: app_wf_def)
    with that a'(3) show ?thesis by (simp add: nth_append stop_current_def stop_def)
  qed
  show ?thesis
    using a' r(2,3) reach stopped by (simp add: app_step_def seed_def nth_append)
qed

text \<open>
  C24. A run's last tick is never drawn: when a frame's tick leaves the model with no
  active line, \<^verbatim>\<open>update()\<close> returns before drawing, so the canvas keeps the previous
  frame although the model moved on (its last lines took one more step, or were
  clipped back).
\<close>

theorem last_tick_not_drawn:
  assumes "app_wf a" and "frames a = i # rest"
    and "model_grow (rconfig (renders a ! i)) cv (rmodel (renders a ! i)) = Inr st'" and "\<not> isActive st'"
  shows "\<exists>a'. app_step cv pd a Frame = Inr a' \<and> screen a' = screen a \<and> rmodel (renders a' ! i) = st'"
proof -
  from assms(1,2) have wf': "app_wf (a\<lparr>frames := rest\<rparr>)" and i: "i < length (renders (a\<lparr>frames := rest\<rparr>))"
    by (simp_all add: app_wf_def split: option.splits)
  have "update_draws ((renders a ! i)\<lparr>rmodel := st'\<rparr>) = []" using assms(4) by (simp add: update_draws_def)
  with run_frame_ok [OF wf' i, of cv] assms(2-4) i show ?thesis
    by (auto simp: app_step_def Let_def)
qed

text \<open>
  C23. After \<^verbatim>\<open>startNew()\<close> the replaced render still paints the shared canvas: its
  pending frame runs \<^verbatim>\<open>update()\<close> before it looks at the stop flag, clears the canvas
  and draws its own forest, one tick on. The new render is current, but until its next
  frame the canvas shows only the old picture.
\<close>

theorem stale_frame_after_startNew:
  assumes "app_wf a" and "current a = Some j" and "frames a = j # rest"
    and "model_grow (rconfig (renders a ! j)) cv (rmodel (renders a ! j)) = Inr st'" and "isActive st'"
  shows "\<exists>a1 a2. app_step cv pd a (StartNew so now) = Inr a1 \<and> app_step cv pd a1 Frame = Inr a2 \<and>
    current a2 = Some (length (renders a)) \<and>
    screen a2 = paint [] (update_draws ((renders a ! j)\<lparr>rmodel := st'\<rparr>))"
proof -
  define seed where "seed = (case so of None \<Rightarrow> default_seed now | Some s \<Rightarrow> s)"
  from startNew_run [OF assms(1), of cv seed] obtain r st1 a1 where
    a1: "startNew cv seed a = Inr a1" "app_wf a1" "renders a1 = renders (stop_current a) @ [r\<lparr>rmodel := st1\<rparr>]"
      "current a1 = Some (length (renders a))"
      "frames a1 = frames a @ (if isActive st1 then [length (renders a)] else [])"
    by blast
  have j: "j < length (renders a)" using assms(1,2) by (simp add: app_wf_def)
  have rj: "renders a1 ! j = stop (renders a ! j)"
    using a1(3) assms(2) j by (simp add: nth_append stop_current_def)
  obtain rest' where fr: "frames a1 = j # rest'" using a1(5) assms(3) by auto
  from a1(2) fr have wf': "app_wf (a1\<lparr>frames := rest'\<rparr>)" and j': "j < length (renders (a1\<lparr>frames := rest'\<rparr>))"
    by (simp_all add: app_wf_def split: option.splits)
  have g: "model_grow (rconfig (renders a1 ! j)) cv (rmodel (renders a1 ! j)) = Inr st'"
    using assms(4) rj by (simp add: stop_def)
  have ud: "update_draws ((renders a1 ! j)\<lparr>rmodel := st'\<rparr>) = update_draws ((renders a ! j)\<lparr>rmodel := st'\<rparr>)"
    using rj by (simp add: update_draws_def stop_def)
  from run_frame_ok [OF wf' j', of cv] g obtain a2 where
    a2: "run_frame cv j (a1\<lparr>frames := rest'\<rparr>) = Inr a2"
      "current a2 = current a1" "screen a2 = paint (screen a1) (update_draws ((renders a1 ! j)\<lparr>rmodel := st'\<rparr>))"
    by (auto simp: Let_def)
  have "screen a2 = paint [] (update_draws ((renders a ! j)\<lparr>rmodel := st'\<rparr>))"
    using a2(3) ud paint_update_draws [of "(renders a ! j)\<lparr>rmodel := st'\<rparr>" "screen a1"] assms(5) by simp
  with a1(1,4) fr a2(1,2) show ?thesis
    by (intro exI [of _ a1] exI [of _ a2]) (simp add: app_step_def seed_def)
qed

end
