(* ===== verification/Segments.thy ===== *)
theory Segments
  imports Geometry
begin

text \<open>
  Geometric correctness of the detector's segment test \<open>linesIntersect\<close>
  (\<^verbatim>\<open>src/js/generator.js\<close>, lines 120--161). The test is a sign computation on four
  orientation values. Its reference definition is \<open>segs_meet\<close>: the two closed
  segments have a common point, i.e. a point \<open>p + t (q - p)\<close> with \<open>0 \<le> t \<le> 1\<close>
  on each of them. The theorem holds over any ordered field and so for the model's
  real coordinates. It covers every degenerate case the code meets: collinear
  overlapping segments, touching endpoints, and zero-length segments.
\<close>

text \<open>The value \<^verbatim>\<open>val\<close> that \<^verbatim>\<open>orientation\<close> computes (line 121).\<close>

definition orient_val :: "'a::linordered_idom point \<Rightarrow> 'a point \<Rightarrow> 'a point \<Rightarrow> 'a" where
  "orient_val p q r = (py q - py p) * (px r - px q) - (px q - px p) * (py r - py q)"

text \<open>The reference definition: points of a closed segment and segments that meet.\<close>

definition seg_at :: "'a::linordered_field point \<Rightarrow> 'a point \<Rightarrow> 'a \<Rightarrow> 'a point" where
  "seg_at p q t = \<lparr>px = px p + t * (px q - px p), py = py p + t * (py q - py p)\<rparr>"

definition on_seg :: "'a::linordered_field point \<Rightarrow> 'a point \<Rightarrow> 'a point \<Rightarrow> bool" where
  "on_seg p q z \<longleftrightarrow> (\<exists>t. 0 \<le> t \<and> t \<le> 1 \<and> z = seg_at p q t)"

definition segs_meet :: "('a::linordered_field, 'z) seg_scheme \<Rightarrow> ('a, 'w) seg_scheme \<Rightarrow> bool" where
  "segs_meet l1 l2 \<longleftrightarrow> (\<exists>z. on_seg (p0 l1) (p1 l1) z \<and> on_seg (p0 l2) (p1 l2) z)"

lemma orientation_val:
  "orientation p q r = (if orient_val p q r > 0 then CLOCKWISE
                        else if orient_val p q r < 0 then ANTICLOCKWISE else COLINEAR)"
  by (simp add: orientation_def orient_val_def Let_def)

lemma orient_val_seg_at:
  "orient_val p q (seg_at c d t) = (1 - t) * orient_val p q c + t * orient_val p q d"
  by (simp add: orient_val_def seg_at_def algebra_simps)

subsection \<open>Orientation values of two segments through a common point\<close>

text \<open>
  If \<open>A + s u = C + t v\<close> with \<open>u = B - A\<close>, \<open>v = D - C\<close> and \<open>k\<close> the cross
  product of \<open>u\<close> and \<open>v\<close>, the four orientation values are \<open>t k\<close>, \<open>-(1 - t) k\<close>,
  \<open>-s k\<close> and \<open>(1 - s) k\<close>.
\<close>

lemma orient_vals_param:
  fixes zx zy ux uy vx vy s t :: "'a::linordered_field"
  defines "A \<equiv> \<lparr>px = zx - s * ux, py = zy - s * uy\<rparr>" and "B \<equiv> \<lparr>px = zx + (1 - s) * ux, py = zy + (1 - s) * uy\<rparr>"
    and "C \<equiv> \<lparr>px = zx - t * vx, py = zy - t * vy\<rparr>" and "D \<equiv> \<lparr>px = zx + (1 - t) * vx, py = zy + (1 - t) * vy\<rparr>"
  shows "orient_val A B C = t * (ux * vy - uy * vx) \<and> orient_val A B D = - (1 - t) * (ux * vy - uy * vx) \<and>
         orient_val C D A = - s * (ux * vy - uy * vx) \<and> orient_val C D B = (1 - s) * (ux * vy - uy * vx)"
  unfolding A_def B_def C_def D_def orient_val_def
  by (intro conjI) (simp_all add: algebra_simps)

lemma orient_vals_meet:
  fixes A B C D :: "'a::linordered_field point"
  assumes "seg_at A B s = seg_at C D t"
  shows "orient_val A B C = t * ((px B - px A) * (py D - py C) - (py B - py A) * (px D - px C)) \<and>
         orient_val A B D = - (1 - t) * ((px B - px A) * (py D - py C) - (py B - py A) * (px D - px C)) \<and>
         orient_val C D A = - s * ((px B - px A) * (py D - py C) - (py B - py A) * (px D - px C)) \<and>
         orient_val C D B = (1 - s) * ((px B - px A) * (py D - py C) - (py B - py A) * (px D - px C))"
proof -
  define zx where "zx = px A + s * (px B - px A)"
  define zy where "zy = py A + s * (py B - py A)"
  have zx': "zx = px C + t * (px D - px C)" and zy': "zy = py C + t * (py D - py C)"
    using assms unfolding zx_def zy_def seg_at_def by simp_all
  have A: "A = \<lparr>px = zx - s * (px B - px A), py = zy - s * (py B - py A)\<rparr>"
    by (cases A) (simp add: zx_def zy_def)
  have B: "B = \<lparr>px = zx + (1 - s) * (px B - px A), py = zy + (1 - s) * (py B - py A)\<rparr>"
    by (cases B) (simp add: zx_def zy_def algebra_simps)
  have C: "C = \<lparr>px = zx - t * (px D - px C), py = zy - t * (py D - py C)\<rparr>"
    by (cases C) (simp add: zx' zy')
  have D: "D = \<lparr>px = zx + (1 - t) * (px D - px C), py = zy + (1 - t) * (py D - py C)\<rparr>"
    by (cases D) (simp add: zx' zy' algebra_simps)
  show ?thesis
    using orient_vals_param [of zx s "px B - px A" zy "py B - py A" t "px D - px C" "py D - py C"]
    unfolding A [symmetric] B [symmetric] C [symmetric] D [symmetric] .
qed

subsection \<open>Signs, parameters and bounding boxes\<close>

lemma orient_cls_neq:
  "((if x > 0 then CLOCKWISE else if x < 0 then ANTICLOCKWISE else COLINEAR) \<noteq>
    (if y > 0 then CLOCKWISE else if y < 0 then ANTICLOCKWISE else COLINEAR)) \<longleftrightarrow>
   (x * y \<le> 0 \<and> (x \<noteq> 0 \<or> y \<noteq> 0))" for x y :: "'a::linordered_idom"
  by (auto simp: mult_le_0_iff zero_less_mult_iff)

lemma frac_unit:
  fixes x y :: "'a::linordered_field"
  assumes "x * y \<le> 0" "x \<noteq> 0 \<or> y \<noteq> 0"
  shows "0 \<le> x / (x - y) \<and> x / (x - y) \<le> 1"
proof -
  consider "x = 0" | "0 < x" | "x < 0" by linarith
  then show ?thesis
  proof cases
    case 2
    with assms have "y \<le> 0" "0 < x - y" by (auto simp: mult_le_0_iff)
    with 2 show ?thesis by (simp add: divide_le_eq_1)
  next
    case 3
    with assms have "0 \<le> y" "x - y < 0" by (auto simp: mult_le_0_iff)
    with 3 show ?thesis by (simp add: divide_le_eq_1 zero_le_divide_iff)
  qed simp
qed

lemma seg_at_0 [simp]: "seg_at p q 0 = p"
  by (simp add: seg_at_def)

lemma on_seg_start: "on_seg p q p"
  unfolding on_seg_def by (rule exI [of _ 0]) simp

lemma between_seg:
  fixes a b t :: "'a::linordered_field"
  assumes "0 \<le> t" "t \<le> 1"
  shows "min a b \<le> a + t * (b - a) \<and> a + t * (b - a) \<le> max a b"
proof -
  have "0 \<le> t * (b - a) \<and> t * (b - a) \<le> b - a \<or> b - a \<le> t * (b - a) \<and> t * (b - a) \<le> 0"
    using assms by (cases "0 \<le> b - a") (auto simp: mult_le_cancel_right1 mult_nonneg_nonneg mult_nonneg_nonpos
      mult_le_cancel_right2)
  then show ?thesis by auto
qed

lemma on_seg_bbox: "on_seg p q r \<Longrightarrow> onSegment p r q"
  unfolding on_seg_def onSegment_def seg_at_def
  using between_seg by fastforce

lemma colinear_bbox_on_seg:
  fixes p q r :: "'a::linordered_field point"
  assumes v: "orient_val p q r = 0" and b: "onSegment p r q"
  shows "on_seg p q r"
proof (cases "px p = px q")
  case False
  define t where "t = (px r - px p) / (px q - px p)"
  have d: "px q - px p \<noteq> 0" using False by simp
  have "0 \<le> t \<and> t \<le> 1"
    using b d unfolding t_def onSegment_def
    by (cases "px p < px q") (auto simp: divide_le_eq_1 zero_le_divide_iff)
  moreover have "r = seg_at p q t"
  proof (rule point.equality)
    show "px r = px (seg_at p q t)" using d by (simp add: seg_at_def t_def)
    have "(py q - py p) * (px r - px q) = (px q - px p) * (py r - py q)"
      using v by (simp add: orient_val_def)
    then show "py r = py (seg_at p q t)" using d
      by (simp add: seg_at_def t_def field_simps)
  qed simp
  ultimately show ?thesis unfolding on_seg_def by blast
next
  case True
  show ?thesis
  proof (cases "py p = py q")
    case False
    define t where "t = (py r - py p) / (py q - py p)"
    have d: "py q - py p \<noteq> 0" using False by simp
    have "0 \<le> t \<and> t \<le> 1"
      using b d unfolding t_def onSegment_def
      by (cases "py p < py q") (auto simp: divide_le_eq_1 zero_le_divide_iff)
    moreover have "r = seg_at p q t"
    proof (rule point.equality)
      show "py r = py (seg_at p q t)" using d by (simp add: seg_at_def t_def)
      show "px r = px (seg_at p q t)" using v d True by (simp add: orient_val_def seg_at_def)
    qed simp
    ultimately show ?thesis unfolding on_seg_def by blast
  next
    case True': True
    with True b have "r = p" by (cases r, cases p) (auto simp: onSegment_def)
    then show ?thesis by (simp add: on_seg_start)
  qed
qed

subsection \<open>The two cases of a meeting\<close>

lemma crossing_meet:
  fixes A B C D :: "'a::linordered_field point"
  assumes "orient_val A B C * orient_val A B D \<le> 0" "orient_val A B C \<noteq> 0 \<or> orient_val A B D \<noteq> 0"
    and "orient_val C D A * orient_val C D B \<le> 0" "orient_val C D A \<noteq> 0 \<or> orient_val C D B \<noteq> 0"
  shows "\<exists>z. on_seg A B z \<and> on_seg C D z"
proof -
  define d1 d2 d3 d4 where "d1 = orient_val A B C" "d2 = orient_val A B D"
    "d3 = orient_val C D A" "d4 = orient_val C D B"
  have k: "d3 - d4 = - (d1 - d2)" unfolding d1_d2_d3_d4_def orient_val_def by (simp add: algebra_simps)
  have nz: "d1 - d2 \<noteq> 0"
  proof
    assume "d1 - d2 = 0"
    then have "d1 * d1 \<le> 0" using assms(1) by (simp add: d1_d2_d3_d4_def)
    then have "d1 = 0" by (auto simp: mult_le_0_iff)
    with \<open>d1 - d2 = 0\<close> assms(2) show False by (simp add: d1_d2_d3_d4_def)
  qed
  define t where "t = d1 / (d1 - d2)"
  define s where "s = d3 / (d3 - d4)"
  have t: "0 \<le> t \<and> t \<le> 1" unfolding t_def using frac_unit assms(1,2) by (simp add: d1_d2_d3_d4_def)
  have s: "0 \<le> s \<and> s \<le> 1" unfolding s_def using frac_unit assms(3,4) by (simp add: d1_d2_d3_d4_def)
  have "seg_at C D t = seg_at A B s"
  proof (rule point.equality)
    show "px (seg_at C D t) = px (seg_at A B s)"
      using nz unfolding seg_at_def t_def s_def k d1_d2_d3_d4_def orient_val_def
      by (simp add: field_simps)
    show "py (seg_at C D t) = py (seg_at A B s)"
      using nz unfolding seg_at_def t_def s_def k d1_d2_d3_d4_def orient_val_def
      by (simp add: field_simps)
  qed simp
  with s t show ?thesis unfolding on_seg_def by metis
qed

lemma parallel_scale:
  fixes ux uy vx vy :: "'a::linordered_field"
  assumes "ux * vy - uy * vx = 0" "ux \<noteq> 0 \<or> uy \<noteq> 0"
  shows "\<exists>m. vx = m * ux \<and> vy = m * uy"
proof (cases "ux = 0")
  case False
  with assms(1) show ?thesis by (intro exI [of _ "vx / ux"]) (simp add: field_simps)
next
  case True
  with assms show ?thesis by (intro exI [of _ "vy / uy"]) simp
qed

lemma interval_meet:
  fixes a m s t :: "'a::linordered_field"
  assumes "s = a + t * m" "0 \<le> s" "s \<le> 1" "0 \<le> t" "t \<le> 1"
  shows "(0 \<le> a \<and> a \<le> 1) \<or> (0 \<le> a + m \<and> a + m \<le> 1) \<or>
         (m \<noteq> 0 \<and> 0 \<le> - a / m \<and> - a / m \<le> 1)"
proof (cases "(0 \<le> a \<and> a \<le> 1) \<or> (0 \<le> a + m \<and> a + m \<le> 1)")
  case False
  have tm: "0 \<le> t * m \<and> t * m \<le> m \<or> m \<le> t * m \<and> t * m \<le> 0"
    using assms(4,5) by (cases "0 \<le> m") (auto simp: mult_nonneg_nonneg mult_le_cancel_right1
      mult_nonneg_nonpos mult_le_cancel_right2)
  consider "a < 0" "1 < a + m" | "1 < a" "a + m < 0"
    using False assms(1-3) tm by linarith
  then show ?thesis
  proof cases
    case 1
    then have m: "0 < m" "- a \<le> m" by linarith+
    have "a / m \<le> 0" using m(1) 1(1) by (simp add: divide_nonpos_pos)
    then have "0 \<le> - a / m" by simp
    moreover have "- a / m \<le> 1" using m by (subst divide_le_eq_1_pos) auto
    ultimately show ?thesis using m by simp
  next
    case 2
    then have m: "m < 0" "m \<le> - a" by linarith+
    have "a / m < 0" using m(1) 2(1) by (simp add: divide_pos_neg)
    then have "0 \<le> - a / m" by simp
    moreover have "- a / m \<le> 1" using m by (subst divide_le_eq_1_neg) auto
    ultimately show ?thesis using m by simp
  qed
qed blast

lemma collinear_meet:
  fixes A B C D :: "'a::linordered_field point"
  assumes z: "seg_at A B s = seg_at C D t" and st: "0 \<le> s" "s \<le> 1" "0 \<le> t" "t \<le> 1"
    and k: "(px B - px A) * (py D - py C) - (py B - py A) * (px D - px C) = 0"
  shows "on_seg A B C \<or> on_seg A B D \<or> on_seg C D A"
proof (cases "px B - px A = 0 \<and> py B - py A = 0")
  case True
  then have "seg_at A B s = A" by (cases A) (simp add: seg_at_def)
  with z st show ?thesis unfolding on_seg_def by metis
next
  case False
  then obtain m where m: "px D - px C = m * (px B - px A)" "py D - py C = m * (py B - py A)"
    using parallel_scale [OF k] by blast
  have ex: "px A + s * (px B - px A) = px C + t * (px D - px C)"
    and ey: "py A + s * (py B - py A) = py C + t * (py D - py C)"
    using z by (simp_all add: seg_at_def)
  have zx: "px C = px A + s * (px B - px A) - t * (m * (px B - px A))"
    using ex unfolding m(1) by linarith
  have zy: "py C = py A + s * (py B - py A) - t * (m * (py B - py A))"
    using ey unfolding m(2) by linarith
  have dx: "px D = px C + m * (px B - px A)" and dy: "py D = py C + m * (py B - py A)"
    using m by simp_all
  define a where "a = s - t * m"
  have C: "C = seg_at A B a"
    by (rule point.equality) (simp_all add: seg_at_def a_def zx zy algebra_simps)
  have D: "D = seg_at A B (a + m)"
    by (rule point.equality) (simp_all add: seg_at_def a_def dx dy zx zy algebra_simps)
  have "s = a + t * m" by (simp add: a_def)
  from interval_meet [OF this st(1,2,3,4)]
  consider "0 \<le> a \<and> a \<le> 1" | "0 \<le> a + m \<and> a + m \<le> 1" | "m \<noteq> 0 \<and> 0 \<le> - a / m \<and> - a / m \<le> 1"
    by blast
  then show ?thesis
  proof cases
    case 1
    then show ?thesis using C unfolding on_seg_def by blast
  next
    case 2
    then show ?thesis using D unfolding on_seg_def by blast
  next
    case 3
    have "A = seg_at C D (- a / m)"
      using 3 by (intro point.equality) (simp_all add: C D seg_at_def field_simps)
    then show ?thesis using 3 unfolding on_seg_def by blast
  qed
qed

subsection \<open>Correctness of the intersection test\<close>

lemma seg_at_1 [simp]: "seg_at p q 1 = q"
  by (simp add: seg_at_def)

lemma on_seg_end: "on_seg p q q"
  unfolding on_seg_def by (rule exI [of _ 1]) simp

lemma orientation_colinear: "orientation p q r = COLINEAR \<longleftrightarrow> orient_val p q r = 0"
  by (simp add: orientation_val)

lemma colinear_on_seg:
  fixes p q r :: "'a::linordered_field point"
  shows "orientation p q r = COLINEAR \<Longrightarrow> onSegment p r q \<Longrightarrow> on_seg p q r"
  by (simp add: orientation_colinear colinear_bbox_on_seg)

lemma linesIntersect_sound:
  fixes l1 :: "('a::linordered_field, 'z) seg_scheme" and l2 :: "('a, 'w) seg_scheme"
  assumes "linesIntersect l1 l2"
  shows "segs_meet l1 l2"
proof -
  from assms consider
      (x) "orientation (p0 l1) (p1 l1) (p0 l2) \<noteq> orientation (p0 l1) (p1 l1) (p1 l2) \<and>
           orientation (p0 l2) (p1 l2) (p0 l1) \<noteq> orientation (p0 l2) (p1 l2) (p1 l1)"
    | (c1) "orientation (p0 l1) (p1 l1) (p0 l2) = COLINEAR \<and> onSegment (p0 l1) (p0 l2) (p1 l1)"
    | (c2) "orientation (p0 l1) (p1 l1) (p1 l2) = COLINEAR \<and> onSegment (p0 l1) (p1 l2) (p1 l1)"
    | (c3) "orientation (p0 l2) (p1 l2) (p0 l1) = COLINEAR \<and> onSegment (p0 l2) (p0 l1) (p1 l2)"
    | (c4) "orientation (p0 l2) (p1 l2) (p1 l1) = COLINEAR \<and> onSegment (p0 l2) (p1 l1) (p1 l2)"
    unfolding linesIntersect_def Let_def by (auto split: if_splits)
  then show ?thesis
  proof cases
    case x
    then show ?thesis unfolding segs_meet_def
      by (intro crossing_meet) (simp_all only: orientation_val orient_cls_neq)
  next
    case c1
    then show ?thesis unfolding segs_meet_def using colinear_on_seg on_seg_start by blast
  next
    case c2
    then show ?thesis unfolding segs_meet_def using colinear_on_seg on_seg_end by blast
  next
    case c3
    then show ?thesis unfolding segs_meet_def using colinear_on_seg on_seg_start by blast
  next
    case c4
    then show ?thesis unfolding segs_meet_def using colinear_on_seg on_seg_end by blast
  qed
qed

lemma linesIntersect_complete:
  fixes l1 :: "('a::linordered_field, 'z) seg_scheme" and l2 :: "('a, 'w) seg_scheme"
  assumes "segs_meet l1 l2"
  shows "linesIntersect l1 l2"
proof -
  from assms obtain s t where st: "0 \<le> s" "s \<le> 1" "0 \<le> t" "t \<le> 1"
    and z: "seg_at (p0 l1) (p1 l1) s = seg_at (p0 l2) (p1 l2) t"
    unfolding segs_meet_def on_seg_def by metis
  define k where "k = (px (p1 l1) - px (p0 l1)) * (py (p1 l2) - py (p0 l2)) -
                      (py (p1 l1) - py (p0 l1)) * (px (p1 l2) - px (p0 l2))"
  from orient_vals_meet [OF z, folded k_def] have d:
    "orient_val (p0 l1) (p1 l1) (p0 l2) = t * k" "orient_val (p0 l1) (p1 l1) (p1 l2) = - (1 - t) * k"
    "orient_val (p0 l2) (p1 l2) (p0 l1) = - s * k" "orient_val (p0 l2) (p1 l2) (p1 l1) = (1 - s) * k"
    by auto
  show ?thesis
  proof (cases "k = 0")
    case False
    have "0 \<le> t * (1 - t) * (k * k)" "0 \<le> s * (1 - s) * (k * k)"
      using st by simp_all
    then have "(t * k) * (- (1 - t) * k) \<le> 0" "(- s * k) * ((1 - s) * k) \<le> 0"
      by (simp_all add: algebra_simps)
    moreover have "t * k \<noteq> 0 \<or> - (1 - t) * k \<noteq> 0" "- s * k \<noteq> 0 \<or> (1 - s) * k \<noteq> 0"
      using False by auto
    ultimately show ?thesis
      unfolding linesIntersect_def Let_def orientation_val d orient_cls_neq by simp
  next
    case True
    then have "on_seg (p0 l1) (p1 l1) (p0 l2) \<or> on_seg (p0 l1) (p1 l1) (p1 l2) \<or>
               on_seg (p0 l2) (p1 l2) (p0 l1)"
      using collinear_meet [OF z st] by (simp add: k_def)
    then show ?thesis
      using True on_seg_bbox unfolding linesIntersect_def Let_def orientation_val d by auto
  qed
qed

text \<open>
  C14. The intersection test is exactly the geometric predicate it stands for:
  \<^verbatim>\<open>linesIntersect(l1, l2)\<close> holds if and only if the closed segments \<open>l1\<close> and
  \<open>l2\<close> share a point. In particular touching at an endpoint counts as a collision,
  as the specification requires, and the detector never reports two disjoint
  segments as colliding.
\<close>

theorem linesIntersect_iff_segs_meet:
  fixes l1 :: "('a::linordered_field, 'z) seg_scheme" and l2 :: "('a, 'w) seg_scheme"
  shows "linesIntersect l1 l2 \<longleftrightarrow> segs_meet l1 l2"
  using linesIntersect_sound linesIntersect_complete by blast

end
