(* ===== verification/Completion.thy ===== *)
theory Completion
  imports Lifetime Render
begin

text \<open>
  The growth ends. \<^verbatim>\<open>grow()\<close> (line 26) marks a line expired when a draw in
  \<open>[0, 1)\<close> falls below \<open>generation * expiryThreshold\<close>; from generation
  \<open>\<lceil>1 / expiryThreshold\<rceil>\<close> on that test always succeeds, so such a line is expired
  from its creation and is deactivated at its first tick, before it could split
  (lines 51--55). The generation of every line is therefore bounded by
  \<open>gen_cap\<close>. A line of generation \<open>g\<close> is created while its parent is active, and an
  active line has at most \<open>diag_steps\<close> steps (\<open>Lifetime\<close>), so a line active after
  \<open>k\<close> ticks satisfies \<open>k + 1 \<le> steps + g * diag_steps\<close>. After
  \<open>growth_bound = (gen_cap + 1) * diag_steps\<close> ticks no line is active, and the frame
  loop of \<^verbatim>\<open>start()\<close> (\<open>frame_loop\<close>) has called \<^verbatim>\<open>onFinished\<close>.
  \<^item> \<open>born_expired\<close>: the per-line fact that a line at or beyond the depth cap is expired;
  \<^item> \<open>model_grow_origin\<close>: each line after a tick is an old line (same generation, one step
    more if still active) or a child of an old line that is active and not expired;
  \<^item> \<open>reachable_depth\<close>, \<open>born_by_step\<close>: the two invariants; \<open>frame_loop_finishes\<close>
    the induction over the frames.
  With \<open>expiryThreshold = 0\<close> nothing bounds the depth, and the bound does not apply.
\<close>

definition born_expired :: "config \<Rightarrow> line \<Rightarrow> bool" where
  "born_expired config l \<longleftrightarrow> (1 \<le> real (generation l) * expiryThreshold config \<longrightarrow> expired l)"

text \<open>The depth cap, the longest life of a line on the canvas, and the number of frames.\<close>

definition gen_cap :: "config \<Rightarrow> nat" where
  "gen_cap config = nat \<lceil>1 / expiryThreshold config\<rceil>"

definition diag_steps :: "canvas \<Rightarrow> nat" where
  "diag_steps cv = nat \<lfloor>max 1 (sqrt ((width cv)\<^sup>2 + (height cv)\<^sup>2))\<rfloor>"

definition growth_bound :: "config \<Rightarrow> canvas \<Rightarrow> nat" where
  "growth_bound config cv = (gen_cap config + 1) * diag_steps cv"

subsection \<open>Expiry at the depth cap\<close>

lemma born_expired_upd [simp]:
  "born_expired c (l\<lparr>active := b\<rparr>) = born_expired c l"
  "born_expired c (l\<lparr>split := b\<rparr>) = born_expired c l"
  "born_expired c (line_clip l) = born_expired c l"
  by (simp_all add: born_expired_def line_clip_def)

lemma line_grow_born_expired: "born_expired config (fst (line_grow config l s))"
proof -
  have "fst (rnd 1 0 s') < 1" for s' by (simp add: rnd_eq mulberry32_unit)
  then show ?thesis
    by (auto simp: born_expired_def line_grow_def Let_def split_beta
        intro: order.strict_trans2)
qed

lemma buildLine_born_expired: "born_expired config (fst (buildLine config q a par st))"
  using line_grow_born_expired by (simp add: buildLine_def Let_def split_beta)

subsection \<open>Where the lines of a tick come from\<close>

lemma generate_roots:
  assumes "generate config cv st = Inr st'"
  shows "lines_all (\<lambda>l. generation l = 0 \<and> active l \<and> steps l = 1) st'"
proof -
  from generate_shape [OF assms] obtain ss where
    ss: "seeds st' = Some ss" "list_all (\<lambda>sd. lines_wf (lines sd)) ss"
      "list_all (\<lambda>sd. \<exists>r. lines sd = [r] \<and> active r \<and> parent r = None \<and> steps r = 1) ss"
    by blast
  have "list_all (\<lambda>l. generation l = 0 \<and> active l \<and> steps l = 1) (lines sd)" if "sd \<in> set ss" for sd
  proof -
    from ss(3) that obtain r where "lines sd = [r]" "active r" "steps r = 1"
      by (auto simp: list_all_iff)
    moreover have "lines_wf (lines sd)" using ss(2) that by (simp add: list_all_iff)
    ultimately show ?thesis by (simp add: lines_wf_def)
  qed
  with ss(1) show ?thesis by (simp add: lines_all_def list_all_iff)
qed

lemma seed_tick_spec_origin:
  assumes "seed_tick_spec ls ls'" and "l' \<in> set ls'"
  shows "(\<exists>l\<in>set ls. generation l' = generation l \<and> (active l' \<longrightarrow> active l \<and> steps l' = Suc (steps l))) \<or>
    (\<exists>p\<in>set ls'. \<exists>l\<in>set ls. active l \<and> active p \<and> \<not> expired p \<and> generation p = generation l \<and>
       steps p = Suc (steps l) \<and> generation l' = Suc (generation p) \<and> steps l' = 1)"
proof -
  from assms(1) obtain ls1 news where
    d: "length ls1 = length ls" "length news = length ls" "ls' = ls1 @ concat news" and
    h: "\<forall>j<length ls. if active (ls ! j) then line_tick_spec j (ls ! j) (ls1 ! j) (news ! j)
                    else ls1 ! j = ls ! j \<and> news ! j = []"
    unfolding seed_tick_spec_def by blast
  have "l' \<in> set ls1 \<or> (\<exists>xs\<in>set news. l' \<in> set xs)" using assms(2) d(3) by auto
  then consider (old) j where "j < length ls" "l' = ls1 ! j"
    | (new) j where "j < length ls" "l' \<in> set (news ! j)"
    by (metis d(1,2) in_set_conv_nth)
  then show ?thesis
  proof cases
    case old
    have "generation (ls1 ! j) = generation (ls ! j) \<and>
      (active (ls1 ! j) \<longrightarrow> active (ls ! j) \<and> steps (ls1 ! j) = Suc (steps (ls ! j)))"
      using h old(1) by (cases "active (ls ! j)") (auto simp: line_tick_spec_def)
    then show ?thesis using old nth_mem [OF old(1)] by blast
  next
    case new
    with h have act: "active (ls ! j)" and lt: "line_tick_spec j (ls ! j) (ls1 ! j) (news ! j)"
      by (auto split: if_splits)
    from lt new obtain ch where "news ! j = [ch]" "child_spec j (ls1 ! j) ch" "active (ls1 ! j)"
      "\<not> expired (ls1 ! j)" "generation (ls1 ! j) = generation (ls ! j)"
      "steps (ls1 ! j) = Suc (steps (ls ! j))"
      by (auto simp: line_tick_spec_def split: if_splits)
    moreover have "ls1 ! j \<in> set ls'" using new(1) d by simp
    ultimately show ?thesis
      using new act nth_mem [OF new(1)]
      by (intro disjI2 bexI [where x = "ls1 ! j"] bexI [where x = "ls ! j"]) (auto simp: child_spec_def)
  qed
qed

lemma model_grow_origin:
  assumes "seeds st = Some ss" and "model_grow config cv st = Inr st'"
  shows "\<exists>ss'. seeds st' = Some ss' \<and> (\<forall>sd'\<in>set ss'. \<forall>l'\<in>set (lines sd').
    (\<exists>sd\<in>set ss. \<exists>l\<in>set (lines sd). generation l' = generation l \<and>
       (active l' \<longrightarrow> active l \<and> steps l' = Suc (steps l))) \<or>
    (\<exists>p\<in>set (lines sd'). \<exists>sd\<in>set ss. \<exists>l\<in>set (lines sd). active l \<and> active p \<and> \<not> expired p \<and>
       generation p = generation l \<and> steps p = Suc (steps l) \<and>
       generation l' = Suc (generation p) \<and> steps l' = 1))"
proof -
  from model_grow_tick [OF assms] obtain ss' where
    ss': "seeds st' = Some ss'" "forest_tick_spec ss ss'" by blast
  have "(\<exists>sd\<in>set ss. \<exists>l\<in>set (lines sd). generation l' = generation l \<and>
       (active l' \<longrightarrow> active l \<and> steps l' = Suc (steps l))) \<or>
    (\<exists>p\<in>set (lines sd'). \<exists>sd\<in>set ss. \<exists>l\<in>set (lines sd). active l \<and> active p \<and> \<not> expired p \<and>
       generation p = generation l \<and> steps p = Suc (steps l) \<and>
       generation l' = Suc (generation p) \<and> steps l' = 1)"
    if "sd' \<in> set ss'" "l' \<in> set (lines sd')" for sd' l'
  proof -
    from that(1) obtain i where i: "i < length ss'" "sd' = ss' ! i" by (auto simp: in_set_conv_nth)
    with ss'(2) have "i < length ss" "seed_tick_spec (lines (ss ! i)) (lines sd')"
      by (auto simp: forest_tick_spec_def list_all2_conv_all_nth)
    with seed_tick_spec_origin [OF _ that(2)] nth_mem [of i ss] show ?thesis by blast
  qed
  with ss' show ?thesis by blast
qed

lemma reachable_born_expired: "reachable config cv st \<Longrightarrow> lines_all (born_expired config) st"
  by (erule reachable_lines_all) (simp_all add: line_grow_born_expired buildLine_born_expired)

lemma gen_cap_step:
  assumes "0 < thr" and "\<not> 1 \<le> real g * thr"
  shows "Suc g \<le> nat \<lceil>1 / thr\<rceil>"
proof -
  from assms have "real g < 1 / thr" by (simp add: pos_less_divide_eq)
  then have "int g < \<lceil>1 / thr\<rceil>" by (simp add: less_ceiling_iff)
  then show ?thesis by linarith
qed

subsection \<open>The two invariants\<close>

lemma reachable_depth:
  assumes "reachable config cv st" and "0 < expiryThreshold config"
  shows "lines_all (\<lambda>l. generation l \<le> gen_cap config) st"
  using assms(1)
proof (induction rule: reachable.induct)
  case (built s)
  then show ?case by (simp add: lines_all_def buildModel_def)
next
  case (generated s st)
  from generate_roots [OF generated] show ?case
    by (cases "seeds st") (auto simp: lines_all_def list_all_iff)
next
  case (grown st st')
  obtain ss where ss: "seeds st = Some ss"
    using grown.hyps(2) by (cases "seeds st") (auto simp: model_grow_def)
  from model_grow_origin [OF ss grown.hyps(2)] obtain ss' where
    ss': "seeds st' = Some ss'" and
    orig: "\<forall>sd'\<in>set ss'. \<forall>l'\<in>set (lines sd').
      (\<exists>sd\<in>set ss. \<exists>l\<in>set (lines sd). generation l' = generation l \<and>
         (active l' \<longrightarrow> active l \<and> steps l' = Suc (steps l))) \<or>
      (\<exists>p\<in>set (lines sd'). \<exists>sd\<in>set ss. \<exists>l\<in>set (lines sd). active l \<and> active p \<and> \<not> expired p \<and>
         generation p = generation l \<and> steps p = Suc (steps l) \<and>
         generation l' = Suc (generation p) \<and> steps l' = 1)"
    by blast
  have be: "lines_all (born_expired config) st'"
    using reachable.grown [OF grown.hyps] by (rule reachable_born_expired)
  have "generation l' \<le> gen_cap config" if "sd' \<in> set ss'" "l' \<in> set (lines sd')" for sd' l'
    using orig that
  proof (elim ballE disjE bexE conjE)
    fix sd l assume "sd \<in> set ss" "l \<in> set (lines sd)" "generation l' = generation l"
    with lines_all_member [OF grown.IH ss] show ?thesis by simp
  next
    fix p assume "p \<in> set (lines sd')" "\<not> expired p" "generation l' = Suc (generation p)"
    with lines_all_member [OF be ss' that(1)] have "\<not> 1 \<le> real (generation p) * expiryThreshold config"
      by (auto simp: born_expired_def)
    from gen_cap_step [OF assms(2) this] \<open>generation l' = Suc (generation p)\<close> show ?thesis
      by (simp add: gen_cap_def)
  qed simp_all
  with ss' show ?case by (simp add: lines_all_def list_all_iff)
qed

lemma steps_le_diag:
  assumes "reachable config cv st" and "canvas_ok cv" and "seeds st = Some ss" and "sd \<in> set ss"
    and "l \<in> set (lines sd)" and "active l"
  shows "steps l \<le> diag_steps cv"
  unfolding diag_steps_def using active_steps_bound [OF assms] by (simp add: le_nat_floor)

lemma born_by_step:
  assumes "reachable config cv st" and "canvas_ok cv" and "seeds st = Some ss"
    and "model_grow config cv st = Inr st'"
    and "lines_all (\<lambda>l. active l \<longrightarrow> k + 1 \<le> steps l + generation l * diag_steps cv) st"
  shows "lines_all (\<lambda>l. active l \<longrightarrow> Suc k + 1 \<le> steps l + generation l * diag_steps cv) st'"
proof -
  from model_grow_origin [OF assms(3,4)] obtain ss' where
    ss': "seeds st' = Some ss'" and
    orig: "\<forall>sd'\<in>set ss'. \<forall>l'\<in>set (lines sd').
      (\<exists>sd\<in>set ss. \<exists>l\<in>set (lines sd). generation l' = generation l \<and>
         (active l' \<longrightarrow> active l \<and> steps l' = Suc (steps l))) \<or>
      (\<exists>p\<in>set (lines sd'). \<exists>sd\<in>set ss. \<exists>l\<in>set (lines sd). active l \<and> active p \<and> \<not> expired p \<and>
         generation p = generation l \<and> steps p = Suc (steps l) \<and>
         generation l' = Suc (generation p) \<and> steps l' = 1)"
    by blast
  have r': "reachable config cv st'" using assms(1,4) by (rule reachable.grown)
  have old: "active l \<longrightarrow> k + 1 \<le> steps l + generation l * diag_steps cv"
    if "sd \<in> set ss" "l \<in> set (lines sd)" for sd l
    using lines_all_member [OF assms(5,3) that] .
  have "active l' \<longrightarrow> Suc k + 1 \<le> steps l' + generation l' * diag_steps cv"
    if "sd' \<in> set ss'" "l' \<in> set (lines sd')" for sd' l'
    using orig that
  proof (elim ballE disjE bexE conjE)
    fix sd l assume "sd \<in> set ss" "l \<in> set (lines sd)" "generation l' = generation l"
      "active l' \<longrightarrow> active l \<and> steps l' = Suc (steps l)"
    with old show ?thesis by auto
  next
    fix p sd l assume p: "p \<in> set (lines sd')" "active p" "generation p = generation l"
      "steps p = Suc (steps l)" "generation l' = Suc (generation p)" "steps l' = 1"
      and l: "sd \<in> set ss" "l \<in> set (lines sd)" "active l"
    have "steps p \<le> diag_steps cv" using steps_le_diag [OF r' assms(2) ss' that(1) p(1,2)] .
    moreover have "k + 1 \<le> steps l + generation l * diag_steps cv" using old [OF l(1,2)] l(3) by blast
    ultimately show ?thesis using p by simp
  qed simp_all
  with ss' show ?thesis by (simp add: lines_all_def list_all_iff)
qed

subsection \<open>The frames of one render\<close>

lemma reachable_isActive:
  assumes "reachable config cv st" and "seeds st = Some ss"
  shows "isActive st \<longleftrightarrow> (\<exists>sd\<in>set ss. \<exists>l\<in>set (lines sd). active l)"
  using reachable_model_inv [OF assms(1)] assms(2) count_active_pos [of ss]
  by (simp add: model_inv_def isActive_def)

lemma diag_steps_pos: "1 \<le> diag_steps cv"
  by (simp add: diag_steps_def le_nat_floor)

lemma doUpdate_running:
  assumes "\<not> stopRequested r" and "model_grow (rconfig r) cv (rmodel r) = Inr st'"
  shows "doUpdate cv r = Inr (if isActive st' then Continue else Finished, r\<lparr>rmodel := st'\<rparr>)"
  using assms by (simp add: doUpdate_def update_def)

lemma born_by_zero:
  assumes "reachable config cv st"
  shows "lines_all (\<lambda>l. active l \<longrightarrow> 1 \<le> steps l + generation l * diag_steps cv) st"
proof (cases "seeds st")
  case (Some ss)
  have "1 \<le> steps l + generation l * diag_steps cv" if "sd \<in> set ss" "l \<in> set (lines sd)" "active l" for sd l
  proof -
    have "line_geom_ok l"
      using reachable_seeds [OF assms Some that(1)] that(2) by (simp add: lines_wf_def list_all_iff)
    with that(3) show ?thesis by (simp add: line_geom_ok_def seg_len_def)
  qed
  with Some show ?thesis by (auto simp: lines_all_def list_all_iff)
qed (simp add: lines_all_def)

lemma growth_bound_pos: "0 < growth_bound config cv"
  using diag_steps_pos [of cv] by (simp add: growth_bound_def)

lemma frame_loop_finishes:
  assumes "reachable (rconfig r) cv (rmodel r)" and "seeds (rmodel r) \<noteq> None"
    and "\<not> stopRequested r" and "canvas_ok cv" and "0 < expiryThreshold (rconfig r)"
    and "lines_all (\<lambda>l. active l \<longrightarrow> k + 1 \<le> steps l + generation l * diag_steps cv) (rmodel r)"
    and "growth_bound (rconfig r) cv \<le> k + n" and "0 < n"
  shows "\<exists>r'. frame_loop cv n r = Inr (Finished, r') \<and> \<not> isActive (rmodel r')"
  using assms
proof (induction n arbitrary: k r)
  case 0
  then show ?case by simp
next
  case (Suc m)
  obtain ss where ss: "seeds (rmodel r) = Some ss" using Suc.prems(2) by blast
  define st' where "st' = projr (model_grow (rconfig r) cv (rmodel r))"
  have g: "model_grow (rconfig r) cv (rmodel r) = Inr st'"
    unfolding st'_def using ss by (rule model_grow_projr)
  have r': "reachable (rconfig r) cv st'" using Suc.prems(1) g by (rule reachable.grown)
  from model_grow_tick [OF ss g] obtain ss' where ss': "seeds st' = Some ss'" by blast
  have born: "lines_all (\<lambda>l. active l \<longrightarrow> Suc k + 1 \<le> steps l + generation l * diag_steps cv) st'"
    using born_by_step [OF Suc.prems(1,4) ss g Suc.prems(6)] .
  have du: "frame_loop cv (Suc m) r =
      (if isActive st' then frame_loop cv m (r\<lparr>rmodel := st'\<rparr>) else Inr (Finished, r\<lparr>rmodel := st'\<rparr>))"
    using doUpdate_running [OF Suc.prems(3) g] by simp
  show ?case
  proof (cases "isActive st'")
    case False
    with du show ?thesis by simp
  next
    case True
    then obtain sd l where l: "sd \<in> set ss'" "l \<in> set (lines sd)" "active l"
      using reachable_isActive [OF r' ss'] by blast
    have "steps l \<le> diag_steps cv" by (rule steps_le_diag [OF r' Suc.prems(4) ss' l])
    moreover have "generation l \<le> gen_cap (rconfig r)"
      using lines_all_member [OF reachable_depth [OF r' Suc.prems(5)] ss' l(1,2)] .
    then have "generation l * diag_steps cv \<le> gen_cap (rconfig r) * diag_steps cv"
      by (rule mult_le_mono1)
    moreover have "Suc k + 1 \<le> steps l + generation l * diag_steps cv"
      using lines_all_member [OF born ss' l(1,2)] l(3) by blast
    moreover have "growth_bound (rconfig r) cv = diag_steps cv + gen_cap (rconfig r) * diag_steps cv"
      by (simp add: growth_bound_def)
    ultimately have "Suc k + 1 \<le> growth_bound (rconfig r) cv" by linarith
    with Suc.prems(7) have m: "0 < m" "growth_bound (rconfig r) cv \<le> Suc k + m" by simp_all
    have "\<exists>r''. frame_loop cv m (r\<lparr>rmodel := st'\<rparr>) = Inr (Finished, r'') \<and> \<not> isActive (rmodel r'')"
      using Suc.IH [of "r\<lparr>rmodel := st'\<rparr>" "Suc k"] r' ss' Suc.prems(3-5) born m by simp
    with True du show ?thesis by simp
  qed
qed

text \<open>
  C13. The expiry rule bounds the branching depth: when \<^verbatim>\<open>expiryThreshold\<close> is positive,
  no line of a reachable state has a generation above \<open>\<lceil>1 / expiryThreshold\<rceil>\<close>,
  because a line at that depth is expired at its creation and never splits.
\<close>

theorem reachable_generation_bound:
  assumes "reachable config cv st" and "0 < expiryThreshold config"
    and "seeds st = Some ss" and "sd \<in> set ss" and "l \<in> set (lines sd)"
  shows "generation l \<le> nat \<lceil>1 / expiryThreshold config\<rceil>"
  using lines_all_member [OF reachable_depth [OF assms(1,2)] assms(3-5)] by (simp add: gen_cap_def)

text \<open>
  C11. Every render that is not paused finishes: on a bounded canvas and with a positive
  \<^verbatim>\<open>expiryThreshold\<close>, from any reachable state of a generated model, the frame loop of
  \<^verbatim>\<open>start()\<close> ends with \<^verbatim>\<open>onFinished()\<close> (\<open>Finished\<close>) within
  \<open>(\<lceil>1 / expiryThreshold\<rceil> + 1) * \<lfloor>max 1 diagonal\<rfloor>\<close> frames, with no line left active.
\<close>

theorem render_finishes:
  assumes "reachable (rconfig r) cv (rmodel r)" and "seeds (rmodel r) \<noteq> None"
    and "\<not> stopRequested r" and "canvas_ok cv" and "0 < expiryThreshold (rconfig r)"
  shows "\<exists>r'. frame_loop cv (growth_bound (rconfig r) cv) r = Inr (Finished, r') \<and> \<not> isActive (rmodel r')"
proof (rule frame_loop_finishes [OF assms, of 0])
  show "lines_all (\<lambda>l. active l \<longrightarrow> 0 + 1 \<le> steps l + generation l * diag_steps cv) (rmodel r)"
    using born_by_zero [OF assms(1)] by simp
  show "growth_bound (rconfig r) cv \<le> 0 + growth_bound (rconfig r) cv" by simp
  show "0 < growth_bound (rconfig r) cv" by (rule growth_bound_pos)
qed

end
