(* ===== verification/Spec2Isabelle.thy ===== *)
theory Spec2Isabelle
  imports Api Segments Completion
begin

text \<open>
  \<^bold>\<open>A verified model of the generative city map.\<close>
  The program is one file, \<^verbatim>\<open>src/js/generator.js\<close>. It grows branching lines from
  random seeds on a canvas until no line can grow. Its parts, from the bottom up:
  \<^item> the pseudo-random generator \<^verbatim>\<open>randomFromSeed\<close> (lines 97--111), one
    instance per run, shared by everything that draws;
  \<^item> the configuration \<^verbatim>\<open>buildRandomConfig\<close> (lines 181--198), the first twelve
    draws of a run;
  \<^item> the line object of \<^verbatim>\<open>buildLine\<close> with its \<^verbatim>\<open>grow()\<close> and \<^verbatim>\<open>clip()\<close>
    (lines 8--38);
  \<^item> the collision detector \<^verbatim>\<open>buildCollisionDetector\<close> (lines 113--179), which
    reaches the forest only through the traversal callback it is handed;
  \<^item> the growth model \<^verbatim>\<open>buildModel\<close> (lines 4--95): seeds with their lines,
    \<^verbatim>\<open>generate()\<close>, the tick \<^verbatim>\<open>grow()\<close>, the traversal
    \<^verbatim>\<open>forEachLineUntilTrue\<close> and the termination signal \<^verbatim>\<open>isActive()\<close>;
  \<^item> one run of the animation, \<^verbatim>\<open>createNewRender\<close> (lines 200--269): init,
    update, the frame callback of start, stop and applyPencil;
  \<^item> the public object \<^verbatim>\<open>generator\<close> (lines 271--295) with startNew, resume, pause,
    applyPencil and onFinishedCurrent, driven by the browser's frame queue;
  \<^item> the view \<^verbatim>\<open>view.canvas\<close>, which is not in the repository: every render draws
    on the same canvas, and the model's canvas record gives its size and visible area.

  \<^bold>\<open>Theories.\<close>
  \<^descr>[\<open>Prelude\<close>] JavaScript built-ins as HOL functions: \<open>some_st\<close> is
    \<^verbatim>\<open>Array.prototype.some\<close> with a callback that threads the state it captures;
    \<open>js_round\<close> is \<^verbatim>\<open>Math.round\<close>. Also the lemmas on them and on lists updated in
    place.
  \<^descr>[\<open>Prng\<close>] \<open>mulberry32_mix\<close> on \<open>32 word\<close>. \<open>mulberry32\<close> keeps the closure's
    \<^verbatim>\<open>seed\<close> as an unbounded \<open>int\<close> (a JavaScript number), and \<open>rnd\<close> is the
    ranged draw with the code's \<^verbatim>\<open>b && a\<close> / \<^verbatim>\<open>b || a\<close> semantics. The closure's
    state is passed explicitly. The lemmas: the state after \<open>n\<close> draws and its
    exactness horizon, and the range of a draw, reversed ranges included.
  \<^descr>[\<open>Config\<close>] \<open>buildRandomConfig\<close> as twelve draws in evaluation order. The lemmas:
    the ranges of the growth parameters and the draw count.
  \<^descr>[\<open>Geometry\<close>] Points, segments and the detector, generic in the coordinate
    ring and in the traversal. \<open>checkForCollisions\<close> takes the traversal as a
    parameter and its visitor writes \<^verbatim>\<open>foundCollision\<close>. The lemmas: the stateful
    scan and symmetry.
  \<^descr>[\<open>Segments\<close>] The reference definition \<open>segs_meet\<close> (the closed segments
    share a point). \<open>linesIntersect_iff_segs_meet\<close> proves the orientation test
    equal to it over every ordered field, degenerate cases included.
  \<^descr>[\<open>Line\<close>] The record \<open>line\<close> (a segment extended with the line's fields),
    \<open>line_grow\<close> (two draws: split, then expiry) and \<open>line_clip\<close>. The lemmas: clip
    undoes the grow's move, and expiry is monotone in the generation.
  \<^descr>[\<open>Model\<close>] The closure state of \<^verbatim>\<open>buildModel\<close> as the record \<open>model\<close>:
    generator state, \<^verbatim>\<open>activeLineCount\<close>, and \<^verbatim>\<open>seeds\<close>, which is \<open>None\<close>
    before \<^verbatim>\<open>generate()\<close>. A line is addressed by its seed index and its index in
    the seed's array; the detector sees it through \<open>line_view\<close>, with identity
    \<open>(i, j)\<close> for JavaScript's \<^verbatim>\<open>===\<close>. The definitions:
    \<^item> the tick: \<open>grow_line\<close> is the body of the seed's \<^verbatim>\<open>forEach\<close>,
      \<open>seed_grow\<close> folds it over the snapshot \<open>active_indices\<close>, and
      \<open>model_grow\<close> folds over the seeds;
    \<^item> errors as \<open>Inl\<close> values: \<open>TypeError\<close> for \<^verbatim>\<open>grow()\<close> before
      \<^verbatim>\<open>generate()\<close>, \<open>RangeError\<close> for \<^verbatim>\<open>Array(n)\<close>.

    The abstract tick \<open>forest_tick_spec\<close> states per line what a tick does.
    \<open>grow_line_refines\<close>, \<open>fold_grow_line\<close>, \<open>seed_grow_refines\<close> and
    \<open>fold_seed_grow\<close> prove that the code implements it. The invariant
    \<open>model_inv\<close> holds in every state of the inductive \<open>reachable\<close> (built, generated,
    grown): forest structure, segment geometry, roots never expire, and the counter
    equals the number of active lines.
  \<^descr>[\<open>Lifetime\<close>] Per-line invariants: \<open>lines_all P\<close> says every line of the forest
    has \<open>P\<close>, and \<open>reachable_lines_all\<close> proves it for every reachable state when
    \<open>P\<close> holds of new lines and survives a line's step, clip and flag writes. The
    invariant \<open>vis_inv\<close> (origins, and the tips of lines that passed a check, are
    visible) gives the per-line lifetime bound on a bounded canvas.
  \<^descr>[\<open>Completion\<close>] The whole run ends. With a positive \<^verbatim>\<open>expiryThreshold\<close>
    a line at generation \<open>\<lceil>1 / expiryThreshold\<rceil>\<close> is expired from its creation and
    never splits (\<open>born_expired\<close>), so the depth is bounded; with the lifetime bound,
    a tick-indexed invariant (\<open>born_by_step\<close>) shows that no line is active after
    \<open>growth_bound\<close> ticks. \<open>render_finishes\<close> is the resulting liveness of the frame
    loop.
  \<^descr>[\<open>Render\<close>] The closure of \<^verbatim>\<open>createNewRender\<close> as the record \<open>render\<close>.
    \<^item> \<open>init_render\<close> is \<^verbatim>\<open>render.init()\<close>. \<open>update\<close> is one tick and returns
      \<^verbatim>\<open>isComplete\<close>.
    \<^item> \<open>doUpdate\<close> is the frame callback of \<^verbatim>\<open>start()\<close>, with outcomes
      \<open>Stopped\<close>, \<open>Finished\<close> and \<open>Continue\<close>.
    \<^item> \<open>frame_loop\<close> is \<^verbatim>\<open>start()\<close> with its chain of
      \<^verbatim>\<open>requestAnimationFrame(doUpdate)\<close>, with the frames delivered as fuel.
    \<^item> \<open>stop\<close> sets the flag. \<open>applyPencil\<close> gives the draws the pencil pass
      takes from the run's generator (\<open>pencil_test\<close> is its per-line test).
  \<^descr>[\<open>Canvas\<close>] The calls on \<^verbatim>\<open>view.canvas\<close> as the datatype \<open>draw_cmd\<close>, with
    their arguments computed as in the code: \<open>update_draws\<close> (lines 204--215),
    \<open>pencil_draws\<close> (lines 250--266), the hue with JavaScript's \<^verbatim>\<open>%\<close>
    (\<open>js_rem\<close>), and \<open>paint\<close>, the canvas as the commands since its last clear.
    The lemmas: the arguments' ranges, and which lines get pencil strokes.
  \<^descr>[\<open>Api\<close>] The module state, the browser's frame queue and the shared canvas
    (\<open>screen\<close>) as the record \<open>app\<close>, with one event type and the step function
    \<open>app_step\<close>. The inductive \<open>app_reach\<close> gives the reachable states, whose
    invariant is \<open>app_wf\<close>. The lemmas cover well-formedness, the only error, the
    effect of a frame and of \<^verbatim>\<open>startNew\<close>, the three surprising behaviours of
    \<^verbatim>\<open>resume()\<close>, the old picture a replaced render paints after
    \<^verbatim>\<open>startNew()\<close>, and the final tick that is never drawn.
  \<^descr>[\<open>Spec2Isabelle\<close>] The collision test in geometric terms, which joins
    \<open>Model\<close> and \<open>Segments\<close>. A seed whose configuration has \<^verbatim>\<open>expiryThreshold = 0\<close>, with which no line of any
    run ever expires. The API end to end (\<open>startNew_finishes\<close>): after
    \<^verbatim>\<open>onFinishedCurrent(h)\<close> and \<^verbatim>\<open>startNew(seed)\<close> with a positive threshold,
    \<open>growth_bound\<close> frames call \<open>h\<close>; it joins \<open>Api\<close>'s frame queue
    (\<open>frames_follow_loop\<close>) to \<open>Completion\<close>'s loop bound. Also the fixtures (a one-seed configuration, a
    100 by 100 canvas, a one-line model ticked under a configuration that always splits)
    and the witnesses.

  \<^bold>\<open>Numbers.\<close> Coordinates, angles and draws are \<open>real\<close>. The generator's mixing is
  on \<open>32 word\<close>, where wrap-around is what the code relies on. The double-valued
  generator state is an unbounded \<open>int\<close>; \<open>seed_exact_horizon\<close> bounds the number of
  draws for which that is exact (4917758 from any seed of \<^verbatim>\<open>startNew\<close>, whose default
  lies in \<open>[0, 2\<^sup>2\<^sup>0)\<close>). A run needs far fewer: six draws per seed and at most
  six per line per tick (two for its step, four more when it splits: the coin flip and
  the child's tag and step).
  Every loop over an array is a \<open>fold\<close>, a structurally recursive \<open>fun\<close>, or
  \<open>some_st\<close> over a list. The only unbounded loop is the frame chain of
  \<^verbatim>\<open>start()\<close>: in \<open>Api\<close> each frame is one \<open>Frame\<close> event, and \<open>frame_loop\<close>
  runs it with the number of frames as fuel (no fuel left means a frame is still
  pending). \<open>render_finishes\<close> proves that
  \<open>growth_bound = (\<lceil>1 / expiryThreshold\<rceil> + 1) * \<lfloor>max 1 diagonal\<rfloor>\<close> frames are
  enough for every reachable model on a bounded canvas: no line lives longer than the
  diagonal, and no line is deeper than \<open>\<lceil>1 / expiryThreshold\<rceil>\<close>. The same number of
  \<open>Frame\<close> events of the API after \<^verbatim>\<open>startNew\<close> is enough (\<open>startNew_finishes\<close>). For the default
  configuration range (\<^verbatim>\<open>expiryThreshold < 0.001\<close>) that is more than a thousand
  times the diagonal; the bound is far above a typical run but is the one the code's
  rules give. When \<^verbatim>\<open>expiryThreshold\<close> is 0 (\<open>zero_expiry_seed\<close>) no bound follows
  from these rules.

  \<^bold>\<open>Not modelled.\<close>
  \<^item> The view's own code (\<^verbatim>\<open>view.canvas\<close> is not in the repository): what
    \<^verbatim>\<open>drawRect\<close>, \<^verbatim>\<open>drawLine\<close> and \<^verbatim>\<open>drawWithPencil\<close> put on the screen.
    The calls and their arguments are modelled; the colour strings are kept as the
    numbers they are built from. The number of draws \<^verbatim>\<open>drawWithPencil\<close> takes from
    the \<^verbatim>\<open>rnd\<close> it is handed is the parameter \<open>pd\<close>.
  \<^item> The callbacks passed to \<^verbatim>\<open>onFinishedCurrent\<close> are opaque. Their calls are
    logged. A callback that calls the API again is modelled as the events that follow.
  \<^item> Floating-point rounding of coordinates and of \<^verbatim>\<open>Math.sin\<close> and
    \<^verbatim>\<open>Math.cos\<close> is not modelled; the arithmetic is exact.

  \<^bold>\<open>Plan.\<close> Two extensions are planned:
  \<^item> a bound on the number of lines of a run, from the depth cap and the lifetime;
  \<^item> the old render's second loop surviving \<^verbatim>\<open>startNew()\<close> as a reachable
    scenario of \<open>app_reach\<close>.
\<close>

section \<open>Fixtures for the witnesses\<close>

definition demo_config :: config where
  "demo_config = \<lparr>seedCount = 1, pBifurcation = 0.03, maxRectWidth = 50, rectBaseHue = 180,
     rectSaturation = 60, rectHueVariation = 50, rectAlpha = 0.5, rectLightness = 45,
     expiryThreshold = 0.0005, lineDarkness = 0.5, pencilHorizontal = False, useGradients = True\<rparr>"

definition demo_canvas :: canvas where
  "demo_canvas = \<lparr>width = 100, height = 100,
     isVisible = (\<lambda>x y. 0 \<le> x \<and> x \<le> 100 \<and> 0 \<le> y \<and> y \<le> 100)\<rparr>"

definition demo_generated :: model where
  "demo_generated = projr (generate demo_config demo_canvas (buildModel 0))"

definition split_config :: config where
  "split_config = demo_config\<lparr>pBifurcation := 1, expiryThreshold := 0\<rparr>"

definition expire_config :: config where
  "expire_config = demo_config\<lparr>expiryThreshold := 1\<rparr>"

definition open_canvas :: canvas where
  "open_canvas = \<lparr>width = 100, height = 100, isVisible = (\<lambda>x y. True)\<rparr>"

definition root_line :: line where
  "root_line = \<lparr>p0 = \<lparr>px = 0, py = 0\<rparr>, p1 = \<lparr>px = 0, py = 1\<rparr>, angle = 0, generation = 0,
     parent = None, active = True, split = False, expired = False, steps = 1, rnd_tag = 0\<rparr>"

definition child_line :: line where
  "child_line = \<lparr>p0 = \<lparr>px = 0, py = 1\<rparr>, p1 = \<lparr>px = 1, py = 1\<rparr>, angle = pi / 2, generation = 1,
     parent = Some 0, active = True, split = False, expired = False, steps = 1, rnd_tag = 0\<rparr>"

definition cross_line :: line where
  "cross_line = \<lparr>p0 = \<lparr>px = 1 / 2, py = 0\<rparr>, p1 = \<lparr>px = 1 / 2, py = 2\<rparr>, angle = 0, generation = 0,
     parent = None, active = True, split = False, expired = False, steps = 2, rnd_tag = 0\<rparr>"

definition tick_model :: model where
  "tick_model = \<lparr>rngSeed = 0, activeLineCount = 1,
     seeds = Some [\<lparr>seed_angle = 0, lines = [root_line]\<rparr>]\<rparr>"

definition dead_model :: model where
  "dead_model = \<lparr>rngSeed = 0, activeLineCount = 0,
     seeds = Some [\<lparr>seed_angle = 0, lines = [root_line\<lparr>active := False\<rparr>]\<rparr>]\<rparr>"

definition tick_result :: model where
  "tick_result = projr (model_grow split_config open_canvas tick_model)"

text \<open>API states: a render of \<open>tick_model\<close> whose loop runs, one paused, one finished.\<close>

definition tick_render :: render where
  "tick_render = \<lparr>rseed = 0, onFinished = 1, rconfig = split_config, rmodel = tick_model, stopRequested = False\<rparr>"

definition running_app :: app where
  "running_app = \<lparr>renders = [tick_render], current = Some 0, handler = 1, frames = [0], finished = [], screen = []\<rparr>"

definition paused_app :: app where
  "paused_app = \<lparr>renders = [tick_render\<lparr>stopRequested := True\<rparr>], current = Some 0, handler = 1, frames = [],
     finished = [], screen = []\<rparr>"

definition done_model :: model where
  "done_model = \<lparr>rngSeed = 0, activeLineCount = 0,
     seeds = Some [\<lparr>seed_angle = 0, lines = [root_line\<lparr>active := False, steps := 2\<rparr>]\<rparr>]\<rparr>"

definition done_app :: app where
  "done_app = \<lparr>renders = [tick_render\<lparr>rmodel := done_model\<rparr>], current = Some 0, handler = 1, frames = [],
     finished = [(0, 1)], screen = []\<rparr>"

definition split_generated :: model where
  "split_generated = projr (generate split_config demo_canvas (buildModel 0))"

text \<open>A canvas on which nothing is visible: every line leaves it at its first step.\<close>

definition blind_canvas :: canvas where
  "blind_canvas = \<lparr>width = 100, height = 100, isVisible = (\<lambda>x y. False)\<rparr>"

text \<open>A render with \<^verbatim>\<open>pencilHorizontal\<close> set whose only line runs along the x axis.\<close>

definition horizontal_render :: render where
  "horizontal_render = \<lparr>rseed = 0, onFinished = 0, rconfig = split_config\<lparr>pencilHorizontal := True\<rparr>,
     rmodel = \<lparr>rngSeed = 0, activeLineCount = 1, seeds = Some [\<lparr>seed_angle = 0, lines = [child_line]\<rparr>]\<rparr>,
     stopRequested = False\<rparr>"

text \<open>A render of the generated demonstration model, running.\<close>

definition demo_run :: render where
  "demo_run = \<lparr>rseed = 0, onFinished = 1, rconfig = demo_config, rmodel = demo_generated,
     stopRequested = False\<rparr>"

section \<open>Properties across components\<close>

text \<open>
  C26. The growth model's collision test, in geometric terms: a growing line of the model
  collides exactly when its tip is off screen or its segment shares a point with a line
  of any seed other than itself, its parent and its children.
\<close>

theorem collision_geometric:
  "checkForCollisions (isVisible cv) (line_view i j l) (forEachLineUntilTrue (Some ss)) \<longleftrightarrow>
   lineOffscreen (isVisible cv) l \<or>
   (\<exists>i'<length ss. \<exists>j'<length (lines (ss ! i')).
      (i', j') \<noteq> (i, j) \<and> \<not> (i' = i \<and> parent l = Some j') \<and>
      \<not> (i' = i \<and> parent (lines (ss ! i') ! j') = Some j) \<and>
      segs_meet l (lines (ss ! i') ! j'))"
proof -
  have meet: "linesIntersect l l' \<longleftrightarrow> segs_meet l l'" for l' :: line
    using linesIntersect_sound linesIntersect_complete by blast
  show ?thesis
    unfolding checkForCollisions_def forEachLineUntilTrue_flat collision_scan_found
      lineOffscreen_view bex_forest_views collision_exempt_view linesIntersect_view meet
    by auto
qed

lemma coin_zero: "fst (mulberry32 (- mulberry32_incr)) = 0"
  by (simp add: mulberry32_def Let_def mulberry32_mix_zero)

lemma no_expiry_at_zero:
  assumes "expiryThreshold config = 0"
  shows "\<not> expired l \<Longrightarrow> \<not> expired (fst (line_grow config l s))"
    and "\<not> expired (fst (buildLine config q a par st))"
proof -
  have "\<not> fst (rnd 1 0 s') < 0" for s' by (simp add: rnd_eq mulberry32_unit)
  then show "\<not> expired l \<Longrightarrow> \<not> expired (fst (line_grow config l s))"
    using assms by (simp add: line_grow_def Let_def split_beta)
  show "\<not> expired (fst (buildLine config q a par st))"
    using \<open>\<And>s'. \<not> fst (rnd 1 0 s') < 0\<close> assms
    by (simp add: buildLine_def line_grow_def model_rnd_def Let_def split_beta)
qed

text \<open>
  C27. Expiry can be switched off entirely by a seed the API accepts: for the seed
  \<open>-10 * 0x6D2B79F5\<close> (and every seed congruent to it modulo \<open>2^32\<close>) the tenth draw of
  \<^verbatim>\<open>buildRandomConfig\<close> is exactly 0, so \<^verbatim>\<open>expiryThreshold\<close> is 0; and with a zero
  threshold no line of any reachable state is ever expired, whatever its generation.
  Only collisions and the canvas edge stop lines then, and the hypothesis of the depth
  bound and of \<open>render_finishes\<close> fails.
\<close>

theorem zero_expiry_seed:
  "expiryThreshold (fst (buildRandomConfig (- 10 * mulberry32_incr))) = 0 \<and>
   (\<forall>config cv st. expiryThreshold config = 0 \<longrightarrow> reachable config cv st \<longrightarrow>
      lines_all (\<lambda>l. \<not> expired l) st)"
proof -
  have z: "expiryThreshold (fst (buildRandomConfig (- 10 * mulberry32_incr))) = 0"
    using buildRandomConfig_fields [of "- 10 * mulberry32_incr"] coin_zero by simp
  have "lines_all (\<lambda>l. \<not> expired l) st" if "expiryThreshold config = 0" "reachable config cv st"
    for config cv st
    using that(2) by (rule reachable_lines_all) (simp_all add: no_expiry_at_zero [OF that(1)] line_clip_def)
  with z show ?thesis by blast
qed

text \<open>
  C12. The API end to end: from the loaded script, \<^verbatim>\<open>onFinishedCurrent(h)\<close> then
  \<^verbatim>\<open>startNew(seed)\<close>, on a bounded canvas, with a seed whose \<^verbatim>\<open>expiryThreshold\<close> is
  positive, followed by \<open>growth_bound\<close> browser frames, throws nothing and calls the
  handler \<open>h\<close> for the new render.
\<close>

theorem startNew_finishes:
  assumes "canvas_ok cv" and "0 < expiryThreshold (fst (buildRandomConfig seed))"
  shows "\<exists>a'. app_run cv pd app_init (OnFinishedCurrent h # StartNew (Some seed) now #
           replicate (growth_bound (fst (buildRandomConfig seed)) cv) Frame) = Inr a' \<and>
         (0, h) \<in> set (finished a')"
proof -
  define a0 where "a0 = app_init\<lparr>handler := h\<rparr>"
  have wf0: "app_wf a0" using app_wf_init by (simp add: a0_def app_wf_def app_init_def)
  from startNew_run [OF wf0, of cv seed] obtain r st' a1 where
    r: "init_render cv seed (handler a0) = Inr r" "reachable (rconfig r) cv (rmodel r)"
      "onFinished r = handler a0" "\<not> stopRequested r" "model_grow (rconfig r) cv (rmodel r) = Inr st'" and
    a1: "startNew cv seed a0 = Inr a1" "app_wf a1" "renders a1 = renders (stop_current a0) @ [r\<lparr>rmodel := st'\<rparr>]"
      "frames a1 = frames a0 @ (if isActive st' then [length (renders a0)] else [])"
      "finished a1 = finished a0 @ (if isActive st' then [] else [(length (renders a0), handler a0)])"
    by blast
  from init_render_ok [of cv seed "handler a0"] r(1) have
    cfg: "rconfig r = fst (buildRandomConfig seed)" and ok: "render_ok r" by auto
  have ren: "renders a1 ! 0 = r\<lparr>rmodel := st'\<rparr>"
    using a1(3) by (simp add: a0_def app_init_def stop_current_def)
  have run: "app_run cv pd app_init (OnFinishedCurrent h # StartNew (Some seed) now # es) = app_run cv pd a1 es"
    for es using a1(1) by (simp add: app_step_def a0_def)
  let ?n = "growth_bound (fst (buildRandomConfig seed)) cv"
  show ?thesis
  proof (cases "isActive st'")
    case False
    then have "frames a1 = []" "(0, h) \<in> set (finished a1)"
      using a1(4,5) by (simp_all add: a0_def app_init_def)
    then show ?thesis unfolding run by (simp add: app_run_idle_frames)
  next
    case True
    from model_grow_some [of "rmodel r" "rconfig r" cv] ok r(5) have ss: "seeds st' \<noteq> None"
      by (simp add: render_ok_def)
    let ?r = "r\<lparr>rmodel := st'\<rparr>"
    have reach: "reachable (rconfig ?r) cv (rmodel ?r)" using reachable.grown [OF r(2,5)] by simp
    have born: "lines_all (\<lambda>l. active l \<longrightarrow> 0 + 1 \<le> steps l + generation l * diag_steps cv) (rmodel ?r)"
      using born_by_zero [OF reach] by simp
    from frame_loop_finishes [OF reach _ _ assms(1) _ born, of ?n] obtain r' where
      "frame_loop cv ?n ?r = Inr (Finished, r')"
      using ss r(4) assms(2) cfg growth_bound_pos [of "rconfig r" cv] by auto
    with frames_follow_loop [of a1 0 cv ?n r' pd] a1(2,4) ren r(4) True r(3)
    show ?thesis unfolding run by (simp add: a0_def app_init_def)
  qed
qed

section \<open>Witnesses\<close>

lemma demo_generated_eq: "generate demo_config demo_canvas (buildModel 0) = Inr demo_generated"
  by (simp add: demo_generated_def generate_def demo_config_def split_beta)

lemma demo_generated_reachable: "reachable demo_config demo_canvas demo_generated"
  by (rule reachable.generated [OF demo_generated_eq])

lemma tick_model_grow: "model_grow split_config open_canvas tick_model = Inr tick_result"
  unfolding tick_result_def by (rule model_grow_projr) (simp add: tick_model_def)

lemma tick_result_shape:
  "length (the (seeds tick_result)) = 1 \<and> length (lines (the (seeds tick_result) ! 0)) = 2"
  by (simp add: tick_result_def model_grow_def tick_model_def seed_grow_def active_indices_def
     lines_of_def grow_line_def line_grow_def rnd_eq model_rnd_def buildLine_def split_config_def
     demo_config_def root_line_def set_line_def push_line_def Let_def split_beta
     checkForCollisions_def lineOffscreen_def open_canvas_def forEachLineUntilTrue_def
     collision_visitor_def collision_exempt_def mulberry32_unit)

lemma demo_generated_seeds:
  "\<exists>sd r. seeds demo_generated = Some [sd] \<and> lines sd = [r] \<and> active r \<and> parent r = None \<and> steps r = 1"
proof -
  from generate_shape [OF demo_generated_eq] obtain ss where
    ss: "seeds demo_generated = Some ss" "length ss = 1"
      "list_all (\<lambda>sd. \<exists>r. lines sd = [r] \<and> active r \<and> parent r = None \<and> steps r = 1) ss"
    by (auto simp: demo_config_def)
  then obtain sd where "ss = [sd]" by (auto simp: length_Suc_conv)
  with ss show ?thesis by auto
qed

lemma child_crosses_cross_line: "linesIntersect child_line cross_line"
  by (simp add: child_line_def cross_line_def linesIntersect_def orientation_def onSegment_def)

lemma tick_model_inv: "model_inv tick_model"
  by (simp add: model_inv_def tick_model_def lines_wf_def line_geom_ok_def seg_len_def growthRate_def
      root_line_def count_active_def)

lemma done_model_inv: "model_inv done_model"
  by (simp add: model_inv_def done_model_def lines_wf_def line_geom_ok_def seg_len_def growthRate_def
      root_line_def count_active_def)

lemma tick_render_ok: "render_ok tick_render"
  using tick_model_inv by (simp add: render_ok_def tick_render_def tick_model_def)

lemma running_app_wf: "app_wf running_app"
  using tick_render_ok by (simp add: app_wf_def running_app_def)

lemma paused_app_wf: "app_wf paused_app"
  using tick_render_ok by (simp add: app_wf_def paused_app_def render_ok_def)

lemma done_app_wf: "app_wf done_app"
  using done_model_inv by (simp add: app_wf_def done_app_def render_ok_def done_model_def)

lemma tick_result_active: "isActive tick_result"
  by (simp add: tick_result_def model_grow_def tick_model_def seed_grow_def active_indices_def
     lines_of_def grow_line_def line_grow_def rnd_eq model_rnd_def buildLine_def split_config_def
     demo_config_def root_line_def set_line_def push_line_def Let_def split_beta
     checkForCollisions_def lineOffscreen_def open_canvas_def forEachLineUntilTrue_def
     collision_visitor_def collision_exempt_def mulberry32_unit isActive_def)

theorem isActive_iff_active_line_witness:
  "reachable demo_config demo_canvas demo_generated \<and> isActive demo_generated \<and>
   activeLineCount demo_generated = 1"
proof -
  from generate_shape [OF demo_generated_eq] obtain ss where
    ss: "seeds demo_generated = Some ss" "count_active ss = 1"
    by (auto simp: demo_config_def)
  then have "\<exists>sd\<in>set ss. \<exists>l\<in>set (lines sd). active l"
    using count_active_pos [of ss] by simp
  with isActive_iff_active_line [OF demo_generated_reachable] ss show ?thesis
    using demo_generated_reachable by simp
qed

theorem model_grow_refines_witness:
  "\<exists>ss'. forest_tick_spec [\<lparr>seed_angle = 0, lines = [root_line]\<rparr>] ss' \<and> seeds tick_result = Some ss'"
proof -
  have s: "seeds tick_model = Some [\<lparr>seed_angle = 0, lines = [root_line]\<rparr>]" by (simp add: tick_model_def)
  show ?thesis
    using model_grow_refines [OF s, of split_config open_canvas] unfolding tick_result_def by auto
qed

theorem reachable_forest_structure_witness:
  "\<exists>sd. seeds demo_generated = Some [sd] \<and> parent (lines sd ! 0) = None \<and> generation (lines sd ! 0) = 0"
proof -
  obtain sd where "seeds demo_generated = Some [sd]"
    using demo_generated_seeds by blast
  with reachable_forest_structure [OF demo_generated_reachable this, of sd] show ?thesis by auto
qed

theorem reachable_line_geometry_witness:
  "\<exists>sd r. seeds demo_generated = Some [sd] \<and> lines sd = [r] \<and> seg_len r = 1 \<and>
     px (p1 r) = px (p0 r) + sin (angle r)"
proof -
  obtain sd r where sd: "seeds demo_generated = Some [sd]" "lines sd = [r]" "active r" "steps r = 1"
    using demo_generated_seeds by blast
  have "seg_len r = 1" using sd by (simp add: seg_len_def)
  with reachable_line_geometry [OF demo_generated_reachable sd(1), of sd r] sd show ?thesis by auto
qed

theorem tick_inactive_frozen_witness:
  "lines (the (seeds (projr (model_grow split_config open_canvas dead_model))) ! 0) ! 0 =
   root_line\<lparr>active := False\<rparr>"
  using tick_inactive_frozen [of dead_model "[\<lparr>seed_angle = 0, lines = [root_line\<lparr>active := False\<rparr>]\<rparr>]"
      split_config open_canvas "projr (model_grow split_config open_canvas dead_model)" 0 0]
    model_grow_projr [of dead_model]
  by (simp add: dead_model_def)

theorem tick_active_step_witness:
  "steps (lines (the (seeds tick_result) ! 0) ! 0) = 2 \<and>
   p0 (lines (the (seeds tick_result) ! 0) ! 0) = \<lparr>px = 0, py = 0\<rparr>"
  using tick_active_step [OF _ tick_model_grow, of "[\<lparr>seed_angle = 0, lines = [root_line]\<rparr>]" 0 0]
  by (simp add: tick_model_def root_line_def)

theorem tick_children_fresh_witness:
  "parent (lines (the (seeds tick_result) ! 0) ! 1) = Some 0 \<and>
   steps (lines (the (seeds tick_result) ! 0) ! 1) = 1 \<and>
   p0 (lines (the (seeds tick_result) ! 0) ! 1) = p1 (lines (the (seeds tick_result) ! 0) ! 0)"
  using tick_children_fresh [OF _ tick_model_grow, of "[\<lparr>seed_angle = 0, lines = [root_line]\<rparr>]" 0 1]
    tick_result_shape
  by (auto simp: tick_model_def)

theorem root_stops_only_by_collision_witness:
  "\<exists>sd r. seeds demo_generated = Some [sd] \<and> lines sd = [r] \<and> \<not> expired r"
proof -
  obtain sd r where sd: "seeds demo_generated = Some [sd]" "lines sd = [r]"
    using demo_generated_seeds by blast
  have "generation r = 0"
    using reachable_seeds [OF demo_generated_reachable sd(1), of sd] sd(2) by (simp add: lines_wf_def)
  with root_stops_only_by_collision [OF demo_generated_reachable sd(1), of sd r] sd show ?thesis by auto
qed

theorem generate_spec_witness:
  "generate (demo_config\<lparr>seedCount := -1\<rparr>) demo_canvas (buildModel 0) = Inl RangeError \<and>
   activeLineCount demo_generated = 1"
  using generate_spec [of "demo_config\<lparr>seedCount := -1\<rparr>" demo_canvas "buildModel 0"]
    generate_spec [of demo_config demo_canvas "buildModel 0"] demo_generated_eq
  by (auto simp: demo_config_def buildModel_def)

theorem collision_check_forest_witness:
  "\<not> checkForCollisions (isVisible open_canvas) (line_view 0 1 child_line)
       (forEachLineUntilTrue (Some [\<lparr>seed_angle = 0, lines = [root_line, child_line]\<rparr>])) \<and>
   checkForCollisions (isVisible open_canvas) (line_view 0 1 child_line)
       (forEachLineUntilTrue (Some [\<lparr>seed_angle = 0, lines = [root_line, child_line]\<rparr>,
                                    \<lparr>seed_angle = 0, lines = [cross_line]\<rparr>]))"
proof
  show "\<not> checkForCollisions (isVisible open_canvas) (line_view 0 1 child_line)
       (forEachLineUntilTrue (Some [\<lparr>seed_angle = 0, lines = [root_line, child_line]\<rparr>]))"
    using collision_check_forest [of open_canvas 0 1 child_line
        "[\<lparr>seed_angle = 0, lines = [root_line, child_line]\<rparr>]"]
    by (simp add: Ex_less_Suc numeral_2_eq_2 child_line_def root_line_def open_canvas_def lineOffscreen_def)
  show "checkForCollisions (isVisible open_canvas) (line_view 0 1 child_line)
       (forEachLineUntilTrue (Some [\<lparr>seed_angle = 0, lines = [root_line, child_line]\<rparr>,
                                    \<lparr>seed_angle = 0, lines = [cross_line]\<rparr>]))"
    using collision_check_forest [of open_canvas 0 1 child_line
        "[\<lparr>seed_angle = 0, lines = [root_line, child_line]\<rparr>, \<lparr>seed_angle = 0, lines = [cross_line]\<rparr>]"]
      child_crosses_cross_line
    by (simp add: Ex_less_Suc numeral_2_eq_2 cross_line_def)
qed

theorem seed_exact_horizon_witness:
  "0 \<le> snd (draws 4917758 1048575) \<and> snd (draws 4917758 1048575) < 2 ^ 53 \<and>
   2 ^ 53 \<le> snd (draws 4917759 0)"
  using Prng.seed_exact_horizon [of 1048575 4917758] Prng.seed_exact_horizon [of 0 4917759] by simp

theorem rnd_range_witness:
  "0.02 \<le> fst (rnd 0.02 0.05 0) \<and> fst (rnd 0.02 0.05 0) < 0.05 \<and>
   0 \<le> fst (rnd 360 0 0) \<and> fst (rnd 360 0 0) < 360"
  using rnd_range [of 0 360 0] rnd_range [of "0.05" "0.02" 0] by simp

theorem line_grow_expiry_mono_witness:
  "expired (fst (line_grow expire_config (root_line\<lparr>generation := 1\<rparr>) 0)) \<and>
   expired (fst (line_grow expire_config (root_line\<lparr>generation := 2\<rparr>) 0))"
proof -
  have e1: "expired (fst (line_grow expire_config (root_line\<lparr>generation := 1\<rparr>) 0))"
    using mulberry32_unit(2) [of mulberry32_incr]
    by (simp add: line_grow_eq expire_config_def demo_config_def)
  have "0 \<le> expiryThreshold expire_config" by (simp add: expire_config_def)
  from line_grow_expiry_mono [OF this _ e1, of 2] e1 show ?thesis by simp
qed

theorem applyPencil_draws_witness:
  "rmodel (applyPencil 3 tick_render) = tick_model\<lparr>rngSeed := 4 * mulberry32_incr\<rparr>"
proof -
  from applyPencil_draws [of tick_render "[\<lparr>seed_angle = 0, lines = [root_line]\<rparr>]" 3] obtain d where
    "rmodel (applyPencil 3 tick_render) = tick_model\<lparr>rngSeed := 0 + int d * mulberry32_incr\<rparr>" "d = 4"
    by (auto simp: tick_render_def tick_model_def split_config_def demo_config_def total_lines_def)
  then show ?thesis by simp
qed

theorem app_reach_wf_witness: "app_reach open_canvas 0 app_init \<and> app_wf app_init"
  using app_reach.init app_reach_wf [OF app_reach.init] by blast

theorem app_step_error_witness:
  "app_step open_canvas 0 app_init Resume = Inl TypeError \<and> current app_init = None"
proof -
  have "app_step open_canvas 0 app_init Resume = Inl TypeError"
    by (simp add: app_step_def app_init_def)
  with app_step_error [OF app_wf_init this] show ?thesis by simp
qed

theorem frame_step_witness:
  "app_step open_canvas 0 running_app Frame =
     Inr (running_app\<lparr>renders := [tick_render\<lparr>rmodel := tick_result\<rparr>], frames := [0],
       screen := paint [] (update_draws (tick_render\<lparr>rmodel := tick_result\<rparr>))\<rparr>)"
proof -
  from frame_step [OF running_app_wf, of 0 "[]" open_canvas 0] tick_model_grow tick_result_active
  show ?thesis by (simp add: running_app_def tick_render_def split_config_def Let_def)
qed

theorem resume_stop_pending_witness:
  "\<exists>a'. app_step open_canvas 0 paused_app Resume = Inr a' \<and> frames a' = [] \<and>
     \<not> stopRequested (renders a' ! 0)"
proof -
  have "current paused_app = Some 0" "stopRequested (renders paused_app ! 0)"
    by (simp_all add: paused_app_def)
  from app_step_ok [OF paused_app_wf, of open_canvas 0 Resume] this(1) obtain a' where
    a': "app_step open_canvas 0 paused_app Resume = Inr a'" by auto
  from resume_stop_pending [OF paused_app_wf \<open>current paused_app = Some 0\<close>
      \<open>stopRequested (renders paused_app ! 0)\<close> a'] a'
  show ?thesis by (simp add: paused_app_def)
qed

theorem resume_while_running_witness:
  "\<exists>a'. app_step open_canvas 0 running_app Resume = Inr a' \<and> frames a' = [0, 0]"
proof -
  have c: "current running_app = Some 0" "\<not> stopRequested (renders running_app ! 0)"
    "model_grow (rconfig (renders running_app ! 0)) open_canvas (rmodel (renders running_app ! 0)) = Inr tick_result"
    using tick_model_grow by (simp_all add: running_app_def tick_render_def)
  from app_step_ok [OF running_app_wf, of open_canvas 0 Resume] c(1) obtain a' where
    a': "app_step open_canvas 0 running_app Resume = Inr a'" by auto
  from resume_while_running [OF running_app_wf c tick_result_active a'] a'
  show ?thesis by (simp add: running_app_def)
qed

theorem resume_after_finish_witness:
  "app_step open_canvas 0 done_app Resume = Inr (done_app\<lparr>finished := [(0, 1), (0, 1)]\<rparr>)"
proof -
  have c: "current done_app = Some 0" "\<not> stopRequested (renders done_app ! 0)"
    "\<not> isActive (rmodel (renders done_app ! 0))"
    by (simp_all add: done_app_def tick_render_def isActive_def done_model_def)
  from resume_after_finish [OF done_app_wf c, of open_canvas 0] show ?thesis
    by (simp add: done_app_def tick_render_def)
qed

theorem startNew_spec_witness:
  "\<exists>a'. app_step open_canvas 0 app_init (StartNew (Some 7) 0) = Inr a' \<and> current a' = Some 0 \<and>
     rseed (renders a' ! 0) = 7 \<and> onFinished (renders a' ! 0) = 0"
  using startNew_spec [OF app_wf_init, of open_canvas 0 "Some 7" 0] by (auto simp: app_init_def)

lemma demo_canvas_ok: "canvas_ok demo_canvas"
  by (auto simp: canvas_ok_def demo_canvas_def)

theorem line_lifetime_bound_witness:
  "\<exists>sd r. seeds demo_generated = Some [sd] \<and> lines sd = [r] \<and> active r \<and>
     real (steps r) \<le> max 1 (sqrt (100\<^sup>2 + 100\<^sup>2))"
proof -
  obtain sd r where sd: "seeds demo_generated = Some [sd]" "lines sd = [r]" "active r"
    using demo_generated_seeds by blast
  from line_lifetime_bound [OF demo_generated_reachable demo_canvas_ok sd(1), of sd r] sd
  show ?thesis by (auto simp: demo_canvas_def)
qed

lemma demo_run_facts:
  "reachable (rconfig demo_run) demo_canvas (rmodel demo_run) \<and> seeds (rmodel demo_run) \<noteq> None \<and>
   \<not> stopRequested demo_run \<and> 0 < expiryThreshold (rconfig demo_run)"
  using demo_generated_reachable demo_generated_seeds by (auto simp: demo_run_def demo_config_def)

theorem reachable_generation_bound_witness:
  "\<exists>sd r. seeds demo_generated = Some [sd] \<and> lines sd = [r] \<and>
     generation r \<le> nat \<lceil>1 / expiryThreshold demo_config\<rceil>"
proof -
  obtain sd r where sd: "seeds demo_generated = Some [sd]" "lines sd = [r]"
    using demo_generated_seeds by blast
  have "0 < expiryThreshold demo_config" by (simp add: demo_config_def)
  from reachable_generation_bound [OF demo_generated_reachable this sd(1), of sd r] sd
  show ?thesis by auto
qed

theorem render_finishes_witness:
  "\<exists>r'. frame_loop demo_canvas (growth_bound demo_config demo_canvas) demo_run = Inr (Finished, r') \<and>
     \<not> isActive (rmodel r')"
  using render_finishes [of demo_run demo_canvas] demo_run_facts demo_canvas_ok
  by (simp add: demo_run_def)

lemma blind_tick:
  "model_grow split_config blind_canvas tick_model = Inr (projr (model_grow split_config blind_canvas tick_model)) \<and>
   \<not> isActive (projr (model_grow split_config blind_canvas tick_model))"
  by (simp add: model_grow_def tick_model_def seed_grow_def active_indices_def
     lines_of_def grow_line_def line_grow_def rnd_eq model_rnd_def split_config_def
     demo_config_def root_line_def set_line_def Let_def split_beta
     checkForCollisions_def lineOffscreen_def blind_canvas_def mulberry32_unit isActive_def)

theorem last_tick_not_drawn_witness:
  "\<exists>a'. app_step blind_canvas 0 running_app Frame = Inr a' \<and> screen a' = [] \<and>
     rmodel (renders a' ! 0) = projr (model_grow split_config blind_canvas tick_model)"
proof -
  have "frames running_app = 0 # []"
    "model_grow (rconfig (renders running_app ! 0)) blind_canvas (rmodel (renders running_app ! 0)) =
       Inr (projr (model_grow split_config blind_canvas tick_model))"
    using blind_tick by (simp_all add: running_app_def tick_render_def)
  from last_tick_not_drawn [OF running_app_wf this] blind_tick
  show ?thesis by (simp add: running_app_def)
qed

theorem stale_frame_after_startNew_witness:
  "\<exists>a1 a2. app_step open_canvas 0 running_app (StartNew (Some 7) 0) = Inr a1 \<and>
     app_step open_canvas 0 a1 Frame = Inr a2 \<and> current a2 = Some 1 \<and>
     screen a2 = paint [] (update_draws (tick_render\<lparr>rmodel := tick_result\<rparr>))"
proof -
  have "current running_app = Some 0" "frames running_app = 0 # []"
    "model_grow (rconfig (renders running_app ! 0)) open_canvas (rmodel (renders running_app ! 0)) = Inr tick_result"
    using tick_model_grow by (simp_all add: running_app_def tick_render_def)
  from stale_frame_after_startNew [OF running_app_wf this tick_result_active, of 0 "Some 7" 0]
  show ?thesis by (simp add: running_app_def)
qed

theorem canvas_call_ranges_witness:
  "\<exists>r. init_render demo_canvas 0 1 = Inr r \<and>
    list_all (\<lambda>c. case c of
      DrawRect l w col g \<Rightarrow> - 50 < hue col \<and> hue col < 360 \<and> 0 \<le> w \<and> w < 100 \<and> w \<le> real (steps l)
    | DrawLine l v \<Rightarrow> 0 \<le> v \<and> v \<le> 100
    | DrawWithPencil l w col \<Rightarrow> - 50 < hue col \<and> hue col < 360 \<and> 10 \<le> w \<and> w < 100
    | Clear \<Rightarrow> True) (update_draws r @ pencil_draws 0 r)"
proof -
  from init_render_ok [of demo_canvas 0 1] obtain r where
    r: "init_render demo_canvas 0 1 = Inr r" "reachable (rconfig r) demo_canvas (rmodel r)"
      "rconfig r = fst (buildRandomConfig 0)"
    by blast
  from canvas_call_ranges [OF r(2,3), of 0] r(1) show ?thesis by (auto simp: list_all_iff)
qed

theorem pencil_skips_horizontal_witness:
  "\<forall>w col. DrawWithPencil child_line w col \<notin> set (pencil_draws 0 horizontal_render)"
proof -
  have "(sin (angle child_line))\<^sup>2 = 1" by (simp add: child_line_def)
  with pencil_skips_horizontal [of horizontal_render 0] show ?thesis
    by (auto simp: horizontal_render_def)
qed

lemma split_generated_reachable: "reachable split_config demo_canvas split_generated"
proof (rule reachable.generated)
  show "generate split_config demo_canvas (buildModel 0) = Inr split_generated"
    by (simp add: split_generated_def generate_def split_config_def demo_config_def split_beta)
qed

theorem zero_expiry_seed_witness:
  "expiryThreshold split_config = 0 \<and> reachable split_config demo_canvas split_generated \<and>
   lines_all (\<lambda>l. \<not> expired l) split_generated"
proof -
  have z: "expiryThreshold split_config = 0" by (simp add: split_config_def)
  with zero_expiry_seed split_generated_reachable show ?thesis by blast
qed


theorem startNew_finishes_witness:
  "canvas_ok demo_canvas \<and> 0 < expiryThreshold (fst (buildRandomConfig (1 - 10 * mulberry32_incr))) \<and>
   (\<exists>a'. app_run demo_canvas 0 app_init (OnFinishedCurrent 1 # StartNew (Some (1 - 10 * mulberry32_incr)) 0 #
      replicate (growth_bound (fst (buildRandomConfig (1 - 10 * mulberry32_incr))) demo_canvas) Frame) = Inr a' \<and>
      (0, 1) \<in> set (finished a'))"
proof -
  have u: "0 < fst (mulberry32 (1 - mulberry32_incr))"
    by (simp add: mulberry32_value) code_simp
  have "0 < expiryThreshold (fst (buildRandomConfig (1 - 10 * mulberry32_incr)))"
    using buildRandomConfig_fields [of "1 - 10 * mulberry32_incr"] u by (simp add: algebra_simps)
  with demo_canvas_ok startNew_finishes [OF demo_canvas_ok this] show ?thesis by blast
qed

end
